theory Spec2Isabelle
  imports Complex_Main "HOL-Library.Word"
begin

unbundle bit_operations_syntax

section \<open>The warp kernel of alg/gdalwarpkernel.cpp\<close>

text \<open>
  The development embeds \<^verbatim>\<open>GDALWarpKernel::PerformWarp\<close>, \<^verbatim>\<open>Validate\<close>,
  \<^verbatim>\<open>GWKSetPixelValue\<close>, \<^verbatim>\<open>GWKGetPixelValue\<close> and \<^verbatim>\<open>GWKGeneralCase\<close>.

  Conventions of the embedding.
  \<^item> A C \<^verbatim>\<open>double\<close> is the real number it denotes; infinities and NaN are outside
    the model.
  \<^item> A pixel buffer (\<^verbatim>\<open>GByte *\<close> viewed at the working data type) is the list of the
    values of its typed slots; a complex format uses two slots per pixel.
  \<^item> A pointer the source tests against \<^verbatim>\<open>NULL\<close> is an \<open>option\<close>; the pointers
    it dereferences unconditionally (the band arrays, the two callbacks) are plain values.
  \<^item> \<^verbatim>\<open>int\<close> variables are mathematical integers: sizes, offsets and pixel indices
    are taken to stay inside 32 bits. The one place where a value can leave that range,
    the conversion \<^verbatim>\<open>(int) padfX[iDstX]\<close>, is modelled with its range check.
  \<^item> An access outside a buffer is undefined in C; the model stops there with a
    \<open>fault\<close> that names the buffer and the index.
\<close>

subsection \<open>Enumerations and the kernel record\<close>

datatype CPLErr = CE_None | CE_Failure

datatype GDALResampleAlg = GRA_NearestNeighbour | GRA_Bilinear | GRA_Cubic

datatype GDALDataType =
    GDT_Unknown
  | GDT_Byte
  | GDT_UInt16
  | GDT_Int16
  | GDT_UInt32
  | GDT_Int32
  | GDT_Float32
  | GDT_Float64
  | GDT_CInt16
  | GDT_CInt32
  | GDT_CFloat32
  | GDT_CFloat64

type_synonym buffer = "real list"

text \<open>
  What one call of the transformer leaves behind: its return value, the three coordinate
  arrays it rewrote in place, and the per-point success flags.
\<close>

record transform_out =
  bOverall :: bool
  outX :: "nat \<Rightarrow> real"
  outY :: "nat \<Rightarrow> real"
  outZ :: "nat \<Rightarrow> real"
  panSuccess :: "nat \<Rightarrow> int"

text \<open>
  The callbacks carry an opaque context in C and may answer differently from call to
  call. The model gives each callback the number of calls made before this one:
  \<open>pfnTransformer k bDstToSrc n x y z\<close> and \<open>pfnProgress k fraction\<close>.
\<close>

record GDALWarpKernel =
  eResample :: GDALResampleAlg
  eWorkingDataType :: GDALDataType
  nBands :: int
  nSrcXSize :: int
  nSrcYSize :: int
  papabySrcImage :: "buffer list"
  papanBandSrcValid :: "32 word list option list option"
  panUnifiedSrcValid :: "32 word list option"
  pafUnifiedSrcDensity :: "real list option"
  nDstXSize :: int
  nDstYSize :: int
  papabyDstImage :: "buffer list"
  panDstValid :: "32 word list option"
  pafDstDensity :: "real list option"
  nSrcXOff :: int
  nSrcYOff :: int
  nDstXOff :: int
  nDstYOff :: int
  pfnTransformer ::
    "nat \<Rightarrow> bool \<Rightarrow> int \<Rightarrow> (nat \<Rightarrow> real) \<Rightarrow> (nat \<Rightarrow> real) \<Rightarrow> (nat \<Rightarrow> real) \<Rightarrow> transform_out"
  pfnProgress :: "nat \<Rightarrow> real \<Rightarrow> bool"
  dfProgressBase :: real
  dfProgressScale :: real

subsection \<open>What C leaves to the implementation\<close>

text \<open>
  Three things the source relies on are fixed by the compiler and the machine, not by the
  source text; they are parameters of the model.
  \<^item> \<open>float_of_double\<close>: the rounding of \<^verbatim>\<open>(float) dfReal\<close>.
  \<^item> \<open>int_of_double_oor\<close>: the result of \<^verbatim>\<open>(int) x\<close> when the truncated value
    does not fit an \<^verbatim>\<open>int\<close> (cvttsd2si on x86-64 gives \<open>- 2 ^ 31\<close>).
  \<^item> \<open>iDstY_indeterminate\<close>: the value read from \<^verbatim>\<open>iDstY\<close> before the loop has
    assigned it.
\<close>

record c_platform =
  float_of_double :: "real \<Rightarrow> real"
  int_of_double_oor :: "real \<Rightarrow> int"
  iDstY_indeterminate :: int

definition c_trunc :: "real \<Rightarrow> int" where
  "c_trunc x = (if x < 0 then \<lceil>x\<rceil> else \<lfloor>x\<rfloor>)"

definition int_of_double :: "c_platform \<Rightarrow> real \<Rightarrow> int" where
  "int_of_double P x =
     (if - 2147483648 \<le> c_trunc x \<and> c_trunc x \<le> 2147483647 then c_trunc x
      else int_of_double_oor P x)"

subsection \<open>Checked memory accesses\<close>

datatype region =
    SrcBandArray
  | DstBandArray
  | SrcImage
  | DstImage
  | BandSrcValidArray
  | BandSrcValid
  | UnifiedSrcValid
  | UnifiedSrcDensity
  | DstValid

datatype fault = OutOfBounds region int

definition peek :: "region \<Rightarrow> 'a list \<Rightarrow> int \<Rightarrow> fault + 'a" where
  "peek rg xs i =
     (if 0 \<le> i \<and> i < int (length xs) then Inr (xs ! nat i) else Inl (OutOfBounds rg i))"

definition poke :: "region \<Rightarrow> 'a list \<Rightarrow> int \<Rightarrow> 'a \<Rightarrow> fault + 'a list" where
  "poke rg xs i v =
     (if 0 \<le> i \<and> i < int (length xs) then Inr (xs[nat i := v]) else Inl (OutOfBounds rg i))"

subsection \<open>GWKSetPixelValue\<close>

text \<open>
  The \<^verbatim>\<open>switch\<close> of \<^verbatim>\<open>GWKSetPixelValue\<close>, case by case and comparison by
  comparison as the source has them. The result is the function's return value and the
  band buffer after the stores.
\<close>

fun set_pixel_switch ::
  "c_platform \<Rightarrow> GDALDataType \<Rightarrow> buffer \<Rightarrow> int \<Rightarrow> real \<Rightarrow> real \<Rightarrow> fault + (bool \<times> buffer)" where
  "set_pixel_switch P GDT_Byte pabyDst iDstOffset dfReal dfImag =
     map_sum id (Pair True)
       (poke DstImage pabyDst iDstOffset
          (if dfReal < 0 then 0
           else if dfReal > 255 then 255
           else of_int (c_trunc dfReal)))"
| "set_pixel_switch P GDT_Int16 pabyDst iDstOffset dfReal dfImag =
     map_sum id (Pair True)
       (poke DstImage pabyDst iDstOffset
          (if dfReal < - 32768 then - 32768
           else if dfReal > 32767 then 32767
           else of_int (c_trunc dfReal)))"
| "set_pixel_switch P GDT_UInt16 pabyDst iDstOffset dfReal dfImag =
     map_sum id (Pair True)
       (poke DstImage pabyDst iDstOffset
          (if dfReal < 0 then 0
           else if dfReal > 65535 then 65535
           else of_int (c_trunc dfReal)))"
| "set_pixel_switch P GDT_UInt32 pabyDst iDstOffset dfReal dfImag =
     map_sum id (Pair True)
       (poke DstImage pabyDst iDstOffset
          (if dfReal < 0 then 0
           else if dfReal > 4294967295 then 4294967295
           else of_int (c_trunc dfReal)))"
| "set_pixel_switch P GDT_Int32 pabyDst iDstOffset dfReal dfImag =
     map_sum id (Pair True)
       (poke DstImage pabyDst iDstOffset
          (if dfReal < 2147483648 then 0
           else if dfReal > 2147483647 then 2147483647
           else of_int (c_trunc dfReal)))"
| "set_pixel_switch P GDT_Float32 pabyDst iDstOffset dfReal dfImag =
     map_sum id (Pair True)
       (poke DstImage pabyDst iDstOffset (float_of_double P dfReal))"
| "set_pixel_switch P GDT_Float64 pabyDst iDstOffset dfReal dfImag =
     map_sum id (Pair True) (poke DstImage pabyDst iDstOffset dfReal)"
| "set_pixel_switch P GDT_CInt16 pabyDst iDstOffset dfReal dfImag =
     (case poke DstImage pabyDst (iDstOffset * 2)
             (if dfReal < - 32768 then - 32768
              else if dfReal > 32767 then 32767
              else of_int (c_trunc dfReal)) of
        Inl f \<Rightarrow> Inl f
      | Inr buf \<Rightarrow>
          map_sum id (Pair True)
            (poke DstImage buf (iDstOffset * 2 + 1)
               (if dfImag < - 32768 then - 32768
                else if dfImag > 32767 then 32767
                else of_int (c_trunc dfImag))))"
| "set_pixel_switch P GDT_CInt32 pabyDst iDstOffset dfReal dfImag =
     (case poke DstImage pabyDst (iDstOffset * 2)
             (if dfReal < - 2147483648 then - 2147483648
              else if dfReal > 2147483647 then 2147483647
              else of_int (c_trunc dfReal)) of
        Inl f \<Rightarrow> Inl f
      | Inr buf \<Rightarrow>
          map_sum id (Pair True)
            (poke DstImage buf (iDstOffset * 2 + 1)
               (if dfImag < - 2147483648 then - 2147483648
                else if dfImag > 2147483647 then 2147483647
                else of_int (c_trunc dfImag))))"
| "set_pixel_switch P GDT_CFloat32 pabyDst iDstOffset dfReal dfImag =
     (case poke DstImage pabyDst (iDstOffset * 2) (float_of_double P dfReal) of
        Inl f \<Rightarrow> Inl f
      | Inr buf \<Rightarrow>
          map_sum id (Pair True)
            (poke DstImage buf (iDstOffset * 2 + 1) (float_of_double P dfImag)))"
| "set_pixel_switch P GDT_CFloat64 pabyDst iDstOffset dfReal dfImag =
     (case poke DstImage pabyDst (iDstOffset * 2) dfReal of
        Inl f \<Rightarrow> Inl f
      | Inr buf \<Rightarrow> map_sum id (Pair True) (poke DstImage buf (iDstOffset * 2 + 1) dfImag))"
| "set_pixel_switch P GDT_Unknown pabyDst iDstOffset dfReal dfImag = Inr (False, pabyDst)"

text \<open>
  \<^verbatim>\<open>GWKSetPixelValue\<close>: fetch the band pointer, run the switch, and leave every other
  field of the kernel as it was. \<^verbatim>\<open>dfDensity\<close> is a parameter the body never reads.
\<close>

definition GWKSetPixelValue ::
  "c_platform \<Rightarrow> GDALWarpKernel \<Rightarrow> int \<Rightarrow> int \<Rightarrow> real \<Rightarrow> real \<Rightarrow> real
     \<Rightarrow> fault + (bool \<times> GDALWarpKernel)" where
  "GWKSetPixelValue P poWK iBand iDstOffset dfDensity dfReal dfImag =
     (case peek DstBandArray (papabyDstImage poWK) iBand of
        Inl f \<Rightarrow> Inl f
      | Inr pabyDst \<Rightarrow>
          (case set_pixel_switch P (eWorkingDataType poWK) pabyDst iDstOffset dfReal dfImag of
             Inl f \<Rightarrow> Inl f
           | Inr (ret, buf) \<Rightarrow>
               Inr (ret, poWK\<lparr>papabyDstImage := (papabyDstImage poWK)[nat iBand := buf]\<rparr>)))"

subsection \<open>GWKGetPixelValue\<close>

text \<open>
  The validity test as the source writes it, with the logical \<^verbatim>\<open>&&\<close>:
  \<^verbatim>\<open>panValid[iOffset>>5] && (0x01 << (iOffset & 0x1f))\<close>.
\<close>

definition mask_test :: "32 word \<Rightarrow> int \<Rightarrow> bool" where
  "mask_test w iOffset \<longleftrightarrow> w \<noteq> 0 \<and> push_bit (nat (iOffset AND 31)) (1 :: 32 word) \<noteq> 0"

text \<open>
  The test as the documentation of \<^verbatim>\<open>papanBandSrcValid\<close> in the same file writes it,
  with the bitwise \<^verbatim>\<open>&\<close>:
  \<^verbatim>\<open>bIsValid = panBandMask[iPixelOffset>>5] & (0x01 << (iPixelOffset & 0x1f))\<close>.
\<close>

definition documented_mask_test :: "32 word \<Rightarrow> int \<Rightarrow> bool" where
  "documented_mask_test w iOffset \<longleftrightarrow> w AND push_bit (nat (iOffset AND 31)) 1 \<noteq> 0"

text \<open>The \<^verbatim>\<open>switch\<close> of \<^verbatim>\<open>GWKGetPixelValue\<close>: the value read, or nothing for the default case.\<close>

fun get_pixel_switch :: "GDALDataType \<Rightarrow> buffer \<Rightarrow> int \<Rightarrow> fault + (real \<times> real) option" where
  "get_pixel_switch GDT_Unknown pabySrc iSrcOffset = Inr None"
| "get_pixel_switch GDT_CInt16 pabySrc iSrcOffset =
     (case peek SrcImage pabySrc (iSrcOffset * 2) of
        Inl f \<Rightarrow> Inl f
      | Inr re \<Rightarrow> map_sum id (\<lambda>im. Some (re, im)) (peek SrcImage pabySrc (iSrcOffset * 2 + 1)))"
| "get_pixel_switch GDT_CInt32 pabySrc iSrcOffset =
     (case peek SrcImage pabySrc (iSrcOffset * 2) of
        Inl f \<Rightarrow> Inl f
      | Inr re \<Rightarrow> map_sum id (\<lambda>im. Some (re, im)) (peek SrcImage pabySrc (iSrcOffset * 2 + 1)))"
| "get_pixel_switch GDT_CFloat32 pabySrc iSrcOffset =
     (case peek SrcImage pabySrc (iSrcOffset * 2) of
        Inl f \<Rightarrow> Inl f
      | Inr re \<Rightarrow> map_sum id (\<lambda>im. Some (re, im)) (peek SrcImage pabySrc (iSrcOffset * 2 + 1)))"
| "get_pixel_switch GDT_CFloat64 pabySrc iSrcOffset =
     (case peek SrcImage pabySrc (iSrcOffset * 2) of
        Inl f \<Rightarrow> Inl f
      | Inr re \<Rightarrow> map_sum id (\<lambda>im. Some (re, im)) (peek SrcImage pabySrc (iSrcOffset * 2 + 1)))"
| "get_pixel_switch t pabySrc iSrcOffset =
     map_sum id (\<lambda>re. Some (re, 0)) (peek SrcImage pabySrc iSrcOffset)"

text \<open>Sequencing of steps that can fault: the first fault ends the run.\<close>

definition bind_fault :: "fault + 'a \<Rightarrow> ('a \<Rightarrow> fault + 'b) \<Rightarrow> fault + 'b" where
  "bind_fault m f = (case m of Inl e \<Rightarrow> Inl e | Inr x \<Rightarrow> f x)"

text \<open>
  The three guarded reads of \<^verbatim>\<open>GWKGetPixelValue\<close>: the unified validity plane, the
  band's validity plane (both pointers tested against \<^verbatim>\<open>NULL\<close>), and the density.
\<close>

definition unified_src_valid :: "GDALWarpKernel \<Rightarrow> int \<Rightarrow> fault + bool" where
  "unified_src_valid poWK iSrcOffset =
     (case panUnifiedSrcValid poWK of
        None \<Rightarrow> Inr True
      | Some panValid \<Rightarrow>
          bind_fault (peek UnifiedSrcValid panValid (drop_bit 5 iSrcOffset))
            (\<lambda>w. Inr (mask_test w iSrcOffset)))"

definition band_src_valid :: "GDALWarpKernel \<Rightarrow> int \<Rightarrow> int \<Rightarrow> fault + bool" where
  "band_src_valid poWK iBand iSrcOffset =
     (case papanBandSrcValid poWK of
        None \<Rightarrow> Inr True
      | Some papanValid \<Rightarrow>
          bind_fault (peek BandSrcValidArray papanValid iBand)
            (\<lambda>p. case p of
                   None \<Rightarrow> Inr True
                 | Some panValid \<Rightarrow>
                     bind_fault (peek BandSrcValid panValid (drop_bit 5 iSrcOffset))
                       (\<lambda>w. Inr (mask_test w iSrcOffset))))"

definition src_density :: "GDALWarpKernel \<Rightarrow> int \<Rightarrow> fault + real" where
  "src_density poWK iSrcOffset =
     (case pafUnifiedSrcDensity poWK of
        None \<Rightarrow> Inr 1
      | Some pafDensity \<Rightarrow> peek UnifiedSrcDensity pafDensity iSrcOffset)"

text \<open>
  \<^verbatim>\<open>GWKGetPixelValue\<close>. The three output parameters are passed in and returned: an
  early \<^verbatim>\<open>return FALSE\<close> overwrites the density only. The result is the return value
  with (density, real, imaginary).
\<close>

definition GWKGetPixelValue ::
  "GDALWarpKernel \<Rightarrow> int \<Rightarrow> int \<Rightarrow> real \<times> real \<times> real \<Rightarrow> fault + (bool \<times> real \<times> real \<times> real)" where
  "GWKGetPixelValue poWK iBand iSrcOffset out =
     bind_fault (peek SrcBandArray (papabySrcImage poWK) iBand) (\<lambda>pabySrc.
     bind_fault (unified_src_valid poWK iSrcOffset) (\<lambda>bUnified.
     if \<not> bUnified then Inr (False, 0, fst (snd out), snd (snd out))
     else
     bind_fault (band_src_valid poWK iBand iSrcOffset) (\<lambda>bBand.
     if \<not> bBand then Inr (False, 0, fst (snd out), snd (snd out))
     else
     bind_fault (get_pixel_switch (eWorkingDataType poWK) pabySrc iSrcOffset) (\<lambda>v.
     case v of
       None \<Rightarrow> Inr (False, 0, fst (snd out), snd (snd out))
     | Some (re, im) \<Rightarrow>
         bind_fault (src_density poWK iSrcOffset) (\<lambda>d. Inr (d \<noteq> 0, d, re, im))))))"

subsection \<open>GWKGeneralCase\<close>

text \<open>
  The locals \<^verbatim>\<open>GWKGeneralCase\<close> copies out of the kernel before its loops, and the
  resampling window size it derives from \<^verbatim>\<open>eResample\<close>.
\<close>

record gwk_locals =
  lDstXSize :: int
  lDstYSize :: int
  lSrcXSize :: int
  lSrcYSize :: int
  nResWinSize :: int

definition res_win_size :: "GDALWarpKernel \<Rightarrow> int" where
  "res_win_size poWK =
     (let n = 0;
          n = (if eResample poWK = GRA_Bilinear then 1 else n);
          n = (if eResample poWK = GRA_Cubic then 2 else n)
      in n)"

definition gwk_locals_of :: "GDALWarpKernel \<Rightarrow> gwk_locals" where
  "gwk_locals_of poWK =
     \<lparr>lDstXSize = nDstXSize poWK, lDstYSize = nDstYSize poWK,
      lSrcXSize = nSrcXSize poWK, lSrcYSize = nSrcYSize poWK,
      nResWinSize = res_win_size poWK\<rparr>"

text \<open>
  The source pixel of one transformed point: the test on the coordinate before the cast,
  the cast, the test on the cast value, and the offset. \<open>None\<close> is \<^verbatim>\<open>continue\<close>.
\<close>

definition src_offset :: "c_platform \<Rightarrow> GDALWarpKernel \<Rightarrow> gwk_locals \<Rightarrow> real \<Rightarrow> real \<Rightarrow> int option" where
  "src_offset P poWK L dfX dfY =
     (if dfX < of_int (nSrcXOff poWK + nResWinSize L)
         \<or> dfY < of_int (nSrcYOff poWK + nResWinSize L) then None
      else
        let iSrcX = int_of_double P dfX - nSrcXOff poWK;
            iSrcY = int_of_double P dfY - nSrcYOff poWK
        in if iSrcX \<ge> lSrcXSize L - nResWinSize L \<or> iSrcY \<ge> lSrcYSize L - nResWinSize L
           then None
           else Some (iSrcX + iSrcY * lSrcXSize L))"

text \<open>The destination validity test of the driver; an absent plane never skips.\<close>

definition dst_already_valid :: "GDALWarpKernel \<Rightarrow> int \<Rightarrow> fault + bool" where
  "dst_already_valid poWK iDstOffset =
     (case panDstValid poWK of
        None \<Rightarrow> Inr False
      | Some panValid \<Rightarrow>
          bind_fault (peek DstValid panValid (drop_bit 5 iDstOffset))
            (\<lambda>w. Inr (mask_test w iDstOffset)))"

text \<open>
  The body of the band loop: collect the source value (only the nearest-neighbour branch
  has a body), skip on zero density, else store.
\<close>

definition band_body :: "c_platform \<Rightarrow> GDALWarpKernel \<Rightarrow> int \<Rightarrow> int \<Rightarrow> int \<Rightarrow> fault + GDALWarpKernel" where
  "band_body P poWK iSrcOffset iDstOffset iBand =
     bind_fault
       (if eResample poWK = GRA_NearestNeighbour then
          bind_fault (GWKGetPixelValue poWK iBand iSrcOffset (0, 0, 0)) (\<lambda>r. Inr (snd r))
        else if eResample poWK = GRA_Bilinear then Inr (0, 0, 0)
        else if eResample poWK = GRA_Cubic then Inr (0, 0, 0)
        else Inr (0, 0, 0))
       (\<lambda>v. case v of (dfDensity, dfValueReal, dfValueImag) \<Rightarrow>
          if dfDensity = 0 then Inr poWK
          else
            bind_fault (GWKSetPixelValue P poWK iBand iDstOffset dfDensity dfValueReal dfValueImag)
              (\<lambda>r. Inr (snd r)))"

lemma bind_fault_cong [fundef_cong]:
  "m = m' \<Longrightarrow> (\<And>x. m' = Inr x \<Longrightarrow> f x = f' x) \<Longrightarrow> bind_fault m f = bind_fault m' f'"
  by (simp add: bind_fault_def split: sum.splits)

lemma set_pixel_switch_length:
  "set_pixel_switch P t buf i re im = Inr (r, buf') \<Longrightarrow> length buf' = length buf"
  by (cases t) (auto simp: poke_def split: if_splits sum.splits)

lemma GWKSetPixelValue_frame:
  "GWKSetPixelValue P poWK iBand iDstOffset d re im = Inr (r, poWK')
   \<Longrightarrow> \<exists>bufs. poWK' = poWK\<lparr>papabyDstImage := bufs\<rparr>"
  by (auto simp: GWKSetPixelValue_def split: sum.splits)

lemma band_body_frame:
  "band_body P poWK iSrcOffset iDstOffset iBand = Inr poWK'
   \<Longrightarrow> \<exists>bufs. poWK' = poWK\<lparr>papabyDstImage := bufs\<rparr>"
proof -
  assume a: "band_body P poWK iSrcOffset iDstOffset iBand = Inr poWK'"
  have triv: "poWK = poWK\<lparr>papabyDstImage := papabyDstImage poWK\<rparr>" by simp
  show ?thesis
    using a
    apply (simp add: band_body_def bind_fault_def split: sum.splits if_splits prod.splits)
    using triv GWKSetPixelValue_frame apply (metis snd_conv surjective_pairing)+
    done
qed

function band_loop :: "c_platform \<Rightarrow> GDALWarpKernel \<Rightarrow> int \<Rightarrow> int \<Rightarrow> int \<Rightarrow> fault + GDALWarpKernel" where
  "band_loop P poWK iSrcOffset iDstOffset iBand =
     (if iBand < nBands poWK then
        bind_fault (band_body P poWK iSrcOffset iDstOffset iBand)
          (\<lambda>poWK'. band_loop P poWK' iSrcOffset iDstOffset (iBand + 1))
      else Inr poWK)"
  by pat_completeness auto
termination
proof (relation "measure (\<lambda>(P, poWK, iSrcOffset, iDstOffset, iBand). nat (nBands poWK - iBand))")
  show "wf (measure (\<lambda>(P, poWK, iSrcOffset, iDstOffset, iBand). nat (nBands poWK - iBand)))"
    by simp
next
  fix P poWK iSrcOffset iDstOffset iBand x
  assume "iBand < nBands poWK" and "band_body P poWK iSrcOffset iDstOffset iBand = Inr x"
  then show "((P, x, iSrcOffset, iDstOffset, iBand + 1), (P, poWK, iSrcOffset, iDstOffset, iBand))
        \<in> measure (\<lambda>(P, poWK, iSrcOffset, iDstOffset, iBand). nat (nBands poWK - iBand))"
    using band_body_frame [of P poWK iSrcOffset iDstOffset iBand x] by auto
qed

declare band_loop.simps [simp del]

text \<open>The body of the loop over the pixels of one output scanline.\<close>

definition pixel_body ::
  "c_platform \<Rightarrow> gwk_locals \<Rightarrow> transform_out \<Rightarrow> int \<Rightarrow> GDALWarpKernel \<Rightarrow> int \<Rightarrow> fault + GDALWarpKernel" where
  "pixel_body P L tr iDstY poWK iDstX =
     (if panSuccess tr (nat iDstX) = 0 then Inr poWK
      else
        case src_offset P poWK L (outX tr (nat iDstX)) (outY tr (nat iDstX)) of
          None \<Rightarrow> Inr poWK
        | Some iSrcOffset \<Rightarrow>
            let iDstOffset = iDstX + iDstY * lDstXSize L
            in bind_fault (dst_already_valid poWK iDstOffset)
                 (\<lambda>bSet. if bSet then Inr poWK
                         else band_loop P poWK iSrcOffset iDstOffset 0))"

function pixel_loop ::
  "c_platform \<Rightarrow> gwk_locals \<Rightarrow> transform_out \<Rightarrow> int \<Rightarrow> GDALWarpKernel \<Rightarrow> int \<Rightarrow> fault + GDALWarpKernel" where
  "pixel_loop P L tr iDstY poWK iDstX =
     (if iDstX < lDstXSize L then
        bind_fault (pixel_body P L tr iDstY poWK iDstX)
          (\<lambda>poWK'. pixel_loop P L tr iDstY poWK' (iDstX + 1))
      else Inr poWK)"
  by pat_completeness auto
termination
  by (relation "measure (\<lambda>(P, L, tr, iDstY, poWK, iDstX). nat (lDstXSize L - iDstX))") auto

declare pixel_loop.simps [simp del]

text \<open>
  The state of a run: the kernel with its buffers, \<^verbatim>\<open>eErr\<close>, the fractions passed to
  the progress callback (oldest first), the number of transformer calls, and the number
  of scanline arrays obtained from \<^verbatim>\<open>CPLMalloc\<close> and not yet given to \<^verbatim>\<open>CPLFree\<close>.
\<close>

record warp_state =
  kernel :: GDALWarpKernel
  eErr :: CPLErr
  progress_log :: "real list"
  transformer_calls :: nat
  live_arrays :: nat

text \<open>
  The fraction handed to the progress callback. The divisor \<^verbatim>\<open>(double) nDstYSize\<close>
  is positive at every call inside the loop; only the call ahead of the loop can divide
  by zero, where C yields an infinity or a NaN and HOL yields 0.
\<close>

definition progress_fraction :: "GDALWarpKernel \<Rightarrow> gwk_locals \<Rightarrow> int \<Rightarrow> real" where
  "progress_fraction poWK L iDstY =
     dfProgressBase poWK + dfProgressScale poWK * (of_int (iDstY + 1) / of_int (lDstYSize L))"

text \<open>
  The points of one output line as the transformer leaves them: the pixel centres of line
  \<open>iDstY\<close> go in, the \<open>k\<close>-th call of the transformer rewrites them.
\<close>

definition transform_row :: "GDALWarpKernel \<Rightarrow> gwk_locals \<Rightarrow> nat \<Rightarrow> int \<Rightarrow> transform_out" where
  "transform_row poWK L k iDstY =
     (let padfX = (\<lambda>iDstX. real iDstX + 0.5 + of_int (nDstXOff poWK));
          padfY = (\<lambda>iDstX. of_int iDstY + 0.5 + of_int (nDstYOff poWK));
          padfZ = (\<lambda>iDstX. 0)
      in pfnTransformer poWK k True (lDstXSize L) padfX padfY padfZ)"

text \<open>
  One output line: set up the points and call the transformer (its return value is
  dropped), run the pixel loop, report progress.
\<close>

definition row_body :: "c_platform \<Rightarrow> gwk_locals \<Rightarrow> warp_state \<Rightarrow> int \<Rightarrow> fault + warp_state" where
  "row_body P L st iDstY =
     (let poWK = kernel st;
          tr = transform_row poWK L (transformer_calls st) iDstY
      in bind_fault (pixel_loop P L tr iDstY poWK 0)
           (\<lambda>poWK'.
              let fraction = progress_fraction poWK' L iDstY;
                  bContinue = pfnProgress poWK' (length (progress_log st)) fraction
              in Inr (st\<lparr>kernel := poWK',
                          eErr := (if bContinue then eErr st else CE_Failure),
                          progress_log := progress_log st @ [fraction],
                          transformer_calls := Suc (transformer_calls st)\<rparr>)))"

function row_loop :: "c_platform \<Rightarrow> gwk_locals \<Rightarrow> warp_state \<Rightarrow> int \<Rightarrow> fault + warp_state" where
  "row_loop P L st iDstY =
     (if iDstY < lDstYSize L \<and> eErr st = CE_None then
        bind_fault (row_body P L st iDstY) (\<lambda>st'. row_loop P L st' (iDstY + 1))
      else Inr st)"
  by pat_completeness auto
termination
  by (relation "measure (\<lambda>(P, L, st, iDstY). nat (lDstYSize L - iDstY))") auto

declare row_loop.simps [simp del]

text \<open>
  \<^verbatim>\<open>GWKGeneralCase\<close>: the progress call ahead of the loop (with \<^verbatim>\<open>iDstY\<close> not yet
  assigned), the four allocations, the loop over output lines, the four releases.
\<close>

definition GWKGeneralCase :: "c_platform \<Rightarrow> GDALWarpKernel \<Rightarrow> fault + warp_state" where
  "GWKGeneralCase P poWK =
     (let L = gwk_locals_of poWK;
          fraction = progress_fraction poWK L (iDstY_indeterminate P)
      in if \<not> pfnProgress poWK 0 fraction then
           Inr \<lparr>kernel = poWK, eErr = CE_Failure, progress_log = [fraction],
                transformer_calls = 0, live_arrays = 0\<rparr>
         else
           bind_fault
             (row_loop P L
                \<lparr>kernel = poWK, eErr = CE_None, progress_log = [fraction],
                 transformer_calls = 0, live_arrays = 4\<rparr> 0)
             (\<lambda>st. Inr (st\<lparr>live_arrays := live_arrays st - 4\<rparr>)))"

subsection \<open>Validate and PerformWarp\<close>

definition Validate :: "GDALWarpKernel \<Rightarrow> CPLErr" where
  "Validate poWK = CE_None"

definition PerformWarp :: "c_platform \<Rightarrow> GDALWarpKernel \<Rightarrow> fault + warp_state" where
  "PerformWarp P poWK =
     (let e = Validate poWK
      in if e \<noteq> CE_None then
           Inr \<lparr>kernel = poWK, eErr = e, progress_log = [], transformer_calls = 0,
                live_arrays = 0\<rparr>
         else GWKGeneralCase P poWK)"

subsection \<open>Concrete kernels\<close>

text \<open>
  A platform for the closed examples: the out-of-range conversion of x86-64, an
  unassigned \<^verbatim>\<open>iDstY\<close> that happens to read 0, and a narrowing to \<^verbatim>\<open>float\<close> that is
  exact on the values the examples store.
\<close>

definition example_platform :: c_platform where
  "example_platform =
     \<lparr>float_of_double = (\<lambda>x. x), int_of_double_oor = (\<lambda>x. - 2147483648),
      iDstY_indeterminate = 0\<rparr>"

text \<open>The transformer that leaves every point where it is and flags every point as done.\<close>

definition identity_transformer ::
  "nat \<Rightarrow> bool \<Rightarrow> int \<Rightarrow> (nat \<Rightarrow> real) \<Rightarrow> (nat \<Rightarrow> real) \<Rightarrow> (nat \<Rightarrow> real) \<Rightarrow> transform_out" where
  "identity_transformer k bDstToSrc n x y z =
     \<lparr>bOverall = True, outX = x, outY = y, outZ = z, panSuccess = (\<lambda>i. 1)\<rparr>"

text \<open>
  Scenario S1: one band of bytes, a 4 by 4 source holding 0 to 15, a 4 by 4 destination
  of zeros, no offsets, no planes, nearest neighbour, a progress callback that always
  continues.
\<close>

definition s1_kernel :: GDALWarpKernel where
  "s1_kernel =
     \<lparr>eResample = GRA_NearestNeighbour, eWorkingDataType = GDT_Byte, nBands = 1,
      nSrcXSize = 4, nSrcYSize = 4,
      papabySrcImage = [[0, 1, 2, 3, 4, 5, 6, 7, 8, 9, 10, 11, 12, 13, 14, 15]],
      papanBandSrcValid = None, panUnifiedSrcValid = None, pafUnifiedSrcDensity = None,
      nDstXSize = 4, nDstYSize = 4,
      papabyDstImage = [[0, 0, 0, 0, 0, 0, 0, 0, 0, 0, 0, 0, 0, 0, 0, 0]],
      panDstValid = None, pafDstDensity = None,
      nSrcXOff = 0, nSrcYOff = 0, nDstXOff = 0, nDstYOff = 0,
      pfnTransformer = identity_transformer, pfnProgress = (\<lambda>k fraction. True),
      dfProgressBase = 0, dfProgressScale = 1\<rparr>"

text \<open>Scenario S3: S1 with a unified source validity plane in which only bit 5 is set.\<close>

definition s3_kernel :: GDALWarpKernel where
  "s3_kernel = s1_kernel\<lparr>panUnifiedSrcValid := Some [32]\<rparr>"

text \<open>
  S1 with a validity plane for its one band in which only bit 5 is set, and S1 with a
  destination validity plane in which only bit 5 is set.
\<close>

definition band_valid_kernel :: GDALWarpKernel where
  "band_valid_kernel = s1_kernel\<lparr>papanBandSrcValid := Some [Some [32]]\<rparr>"

definition dst_valid_kernel :: GDALWarpKernel where
  "dst_valid_kernel = s1_kernel\<lparr>panDstValid := Some [32]\<rparr>"

text \<open>S1 with a destination validity plane of clear bits and a destination density of zeros.\<close>

definition dst_planes_kernel :: GDALWarpKernel where
  "dst_planes_kernel =
     s1_kernel\<lparr>panDstValid := Some [0],
               pafDstDensity := Some [0, 0, 0, 0, 0, 0, 0, 0, 0, 0, 0, 0, 0, 0, 0, 0]\<rparr>"

text \<open>S1 with the working data type left at \<^verbatim>\<open>GDT_Unknown\<close>, and S1 with no band at all.\<close>

definition unknown_type_kernel :: GDALWarpKernel where
  "unknown_type_kernel = s1_kernel\<lparr>eWorkingDataType := GDT_Unknown\<rparr>"

definition no_band_kernel :: GDALWarpKernel where
  "no_band_kernel = s1_kernel\<lparr>nBands := 0, papabySrcImage := [], papabyDstImage := []\<rparr>"

text \<open>A one-pixel kernel of 32-bit integers whose destination holds 7.\<close>

definition int32_kernel :: GDALWarpKernel where
  "int32_kernel =
     s1_kernel\<lparr>eWorkingDataType := GDT_Int32, nSrcXSize := 1, nSrcYSize := 1,
               papabySrcImage := [[0]], nDstXSize := 1, nDstYSize := 1,
               papabyDstImage := [[7]]\<rparr>"

text \<open>S1 with a destination validity plane, asked to resample bilinearly.\<close>

definition bilinear_kernel :: GDALWarpKernel where
  "bilinear_kernel = s1_kernel\<lparr>eResample := GRA_Bilinear, panDstValid := Some [0]\<rparr>"





text \<open>
  Scenario S6: bytes, a source and a destination of 8 lines of 2 pixels, and a progress
  callback that continues on every call but its fifth, the one after line 3.
\<close>

definition s6_kernel :: GDALWarpKernel where
  "s6_kernel =
     s1_kernel\<lparr>nSrcXSize := 2, nSrcYSize := 8,
               papabySrcImage := [[1, 2, 3, 4, 5, 6, 7, 8, 9, 10, 11, 12, 13, 14, 15, 16]],
               nDstXSize := 2, nDstYSize := 8,
               papabyDstImage := [[0, 0, 0, 0, 0, 0, 0, 0, 0, 0, 0, 0, 0, 0, 0, 0]],
               pfnProgress := (\<lambda>k fraction. k \<noteq> 4)\<rparr>"

text \<open>
  S1 with a transformer that sends every point to x = 3000000000, beyond the largest
  \<^verbatim>\<open>int\<close>, on its own line.
\<close>

definition far_transformer ::
  "nat \<Rightarrow> bool \<Rightarrow> int \<Rightarrow> (nat \<Rightarrow> real) \<Rightarrow> (nat \<Rightarrow> real) \<Rightarrow> (nat \<Rightarrow> real) \<Rightarrow> transform_out" where
  "far_transformer k bDstToSrc n x y z =
     \<lparr>bOverall = True, outX = (\<lambda>i. 3000000000), outY = y, outZ = z, panSuccess = (\<lambda>i. 1)\<rparr>"

definition far_kernel :: GDALWarpKernel where
  "far_kernel = s1_kernel\<lparr>pfnTransformer := far_transformer\<rparr>"

subsection \<open>Invariants of the data model\<close>

text \<open>
  A destination validity plane, when present, has a bit for every destination pixel:
  at least \<open>nDstXSize * nDstYSize / 32\<close> words, rounded up.
\<close>

definition dst_valid_plane_ok :: "GDALWarpKernel \<Rightarrow> bool" where
  "dst_valid_plane_ok poWK =
     (case panDstValid poWK of
        None \<Rightarrow> True
      | Some panValid \<Rightarrow> nDstXSize poWK * nDstYSize poWK \<le> 32 * int (length panValid))"

subsection \<open>Notions used in the statements\<close>

text \<open>Two kernels that differ at most in the contents of the destination band buffers.\<close>

definition only_dst_image_changed :: "GDALWarpKernel \<Rightarrow> GDALWarpKernel \<Rightarrow> bool" where
  "only_dst_image_changed poWK poWK' \<longleftrightarrow> (\<exists>bufs. poWK' = poWK\<lparr>papabyDstImage := bufs\<rparr>)"

text \<open>What a line does to the state when its pixel loop leaves the kernel alone.\<close>

definition after_idle_row :: "gwk_locals \<Rightarrow> warp_state \<Rightarrow> int \<Rightarrow> warp_state" where
  "after_idle_row L st iDstY =
     st\<lparr>eErr := (if pfnProgress (kernel st) (length (progress_log st))
                      (progress_fraction (kernel st) L iDstY)
                 then eErr st else CE_Failure),
        progress_log := progress_log st @ [progress_fraction (kernel st) L iDstY],
        transformer_calls := Suc (transformer_calls st)\<rparr>"

text \<open>The kernel with another progress callback.\<close>

definition with_progress :: "(nat \<Rightarrow> real \<Rightarrow> bool) \<Rightarrow> GDALWarpKernel \<Rightarrow> GDALWarpKernel" where
  "with_progress g poWK = poWK\<lparr>pfnProgress := g\<rparr>"

text \<open>
  The slots of a band buffer that belong to the pixel at an offset: one for a real
  format, two for a complex one.
\<close>

definition is_complex :: "GDALDataType \<Rightarrow> bool" where
  "is_complex t \<longleftrightarrow> t \<in> {GDT_CInt16, GDT_CInt32, GDT_CFloat32, GDT_CFloat64}"

definition slots_per_pixel :: "GDALDataType \<Rightarrow> int" where
  "slots_per_pixel t = (if is_complex t then 2 else 1)"

definition pixel_slots :: "GDALDataType \<Rightarrow> int \<Rightarrow> nat set" where
  "pixel_slots t off = (if is_complex t then {nat (off * 2), nat (off * 2 + 1)} else {nat off})"

text \<open>
  The buffers of a kernel are as large as the data model says: a band buffer for each
  band, with the slots of every pixel of its window; validity planes with a bit, and the
  density plane with an entry, for every source pixel; and window offsets that are not
  negative.
\<close>

definition kernel_buffers_ok :: "GDALWarpKernel \<Rightarrow> bool" where
  "kernel_buffers_ok poWK \<longleftrightarrow>
     nBands poWK \<le> int (length (papabySrcImage poWK))
     \<and> nBands poWK \<le> int (length (papabyDstImage poWK))
     \<and> list_all
         (\<lambda>buf. slots_per_pixel (eWorkingDataType poWK) * (nSrcXSize poWK * nSrcYSize poWK)
                  \<le> int (length buf))
         (take (nat (nBands poWK)) (papabySrcImage poWK))
     \<and> list_all
         (\<lambda>buf. slots_per_pixel (eWorkingDataType poWK) * (nDstXSize poWK * nDstYSize poWK)
                  \<le> int (length buf))
         (take (nat (nBands poWK)) (papabyDstImage poWK))
     \<and> (case panUnifiedSrcValid poWK of
          None \<Rightarrow> True
        | Some panValid \<Rightarrow> nSrcXSize poWK * nSrcYSize poWK \<le> 32 * int (length panValid))
     \<and> (case papanBandSrcValid poWK of
          None \<Rightarrow> True
        | Some papanValid \<Rightarrow>
            nBands poWK \<le> int (length papanValid)
            \<and> list_all
                (\<lambda>p. case p of
                       None \<Rightarrow> True
                     | Some panValid \<Rightarrow>
                         nSrcXSize poWK * nSrcYSize poWK \<le> 32 * int (length panValid))
                (take (nat (nBands poWK)) papanValid))
     \<and> (case pafUnifiedSrcDensity poWK of
          None \<Rightarrow> True
        | Some pafDensity \<Rightarrow> nSrcXSize poWK * nSrcYSize poWK \<le> int (length pafDensity))
     \<and> dst_valid_plane_ok poWK
     \<and> 0 \<le> nSrcXOff poWK \<and> 0 \<le> nSrcYOff poWK"

text \<open>Every coordinate the transformer returns is below \<open>2 ^ 31\<close>.\<close>

definition transformer_in_int_range :: "GDALWarpKernel \<Rightarrow> bool" where
  "transformer_in_int_range poWK \<longleftrightarrow>
     (\<forall>k b n x y z i.
        outX (pfnTransformer poWK k b n x y z) i < 2147483648
        \<and> outY (pfnTransformer poWK k b n x y z) i < 2147483648)"

section \<open>Properties\<close>

lemmas warp_unfold =
  PerformWarp_def Validate_def GWKGeneralCase_def gwk_locals_of_def res_win_size_def
  row_loop.simps row_body_def transform_row_def pixel_loop.simps pixel_body_def band_loop.simps band_body_def
  src_offset_def int_of_double_def c_trunc_def dst_already_valid_def
  GWKGetPixelValue_def GWKSetPixelValue_def unified_src_valid_def band_src_valid_def
  src_density_def mask_test_def bind_fault_def peek_def poke_def progress_fraction_def Let_def

subsection \<open>The pixel codec\<close>

lemma int32_store_below_two_to_31:
  "dfReal < 2147483648 \<Longrightarrow>
   set_pixel_switch P GDT_Int32 buf i dfReal dfImag = map_sum id (Pair True) (poke DstImage buf i 0)"
  by simp

lemma int32_store_from_two_to_31:
  "2147483648 \<le> dfReal \<Longrightarrow>
   set_pixel_switch P GDT_Int32 buf i dfReal dfImag =
     map_sum id (Pair True) (poke DstImage buf i 2147483647)"
  by simp

text \<open>
  C2. For \<^verbatim>\<open>GDT_Int32\<close> the claim asks for saturation at \<open>- 2147483648\<close> and
  \<open>2147483647\<close> and truncation in between. The first comparison of the source's
  \<^verbatim>\<open>GDT_Int32\<close> case is \<^verbatim>\<open>dfReal < 2147483648.0\<close> and its branch stores 0, so the
  store of \<open>- 3000000000\<close> leaves 0 (not \<open>- 2147483648\<close>) and the stores of 5 and of
  \<open>- 5.7\<close> leave 0 (not 5 and \<open>- 5\<close>); only the upper bound is as claimed.
\<close>

theorem int32_store_does_not_saturate_or_truncate:
  "map_sum id (\<lambda>r. (fst r, papabyDstImage (snd r)))
     (GWKSetPixelValue P int32_kernel 0 0 1 (- 3000000000) 0) = Inr (True, [[0]])
   \<and> map_sum id (\<lambda>r. (fst r, papabyDstImage (snd r)))
       (GWKSetPixelValue P int32_kernel 0 0 1 5 0) = Inr (True, [[0]])
   \<and> map_sum id (\<lambda>r. (fst r, papabyDstImage (snd r)))
       (GWKSetPixelValue P int32_kernel 0 0 1 (- 5.7) 0) = Inr (True, [[0]])
   \<and> map_sum id (\<lambda>r. (fst r, papabyDstImage (snd r)))
       (GWKSetPixelValue P int32_kernel 0 0 1 3000000000 0) = Inr (True, [[2147483647]])"
  by (simp add: GWKSetPixelValue_def int32_kernel_def s1_kernel_def peek_def poke_def)

subsection \<open>Validity bits\<close>

lemma mask_test_is_nonzero_word: "mask_test w i \<longleftrightarrow> w \<noteq> 0"
proof -
  have "nat (i AND 31) < 32"
    by (simp add: AND_upper2' nat_less_iff)
  then have "push_bit (nat (i AND 31)) (1 :: 32 word) \<noteq> 0"
    by simp
  then show ?thesis by (simp add: mask_test_def)
qed

text \<open>
  C3. The claim is the bit test the file documents, \<open>documented_mask_test\<close>. The source
  combines the word and the shifted 1 with \<^verbatim>\<open>&&\<close>, so an element counts as valid as
  soon as its word has any bit set. On scenario S3 (only bit 5 of the unified plane set)
  the warp copies all sixteen pixels, where the claimed test lets through pixel 5 alone;
  the same happens with the bit in the band's plane; and with only bit 5 of the
  destination plane set the driver skips all sixteen pixels, not pixel 5 alone.
\<close>

theorem s3_unified_validity_passes_every_pixel:
  "map_sum id (\<lambda>st. (eErr st, papabyDstImage (kernel st))) (PerformWarp P s3_kernel)
     = Inr (CE_None, [[0, 1, 2, 3, 4, 5, 6, 7, 8, 9, 10, 11, 12, 13, 14, 15]])
   \<and> map_sum id (\<lambda>st. (eErr st, papabyDstImage (kernel st))) (PerformWarp P band_valid_kernel)
     = Inr (CE_None, [[0, 1, 2, 3, 4, 5, 6, 7, 8, 9, 10, 11, 12, 13, 14, 15]])
   \<and> map_sum id (\<lambda>st. (eErr st, papabyDstImage (kernel st))) (PerformWarp P dst_valid_kernel)
     = Inr (CE_None, [[0, 0, 0, 0, 0, 0, 0, 0, 0, 0, 0, 0, 0, 0, 0, 0]])
   \<and> \<not> documented_mask_test 32 0 \<and> mask_test 32 0"
  by (simp add: warp_unfold s3_kernel_def band_valid_kernel_def dst_valid_kernel_def
        s1_kernel_def identity_transformer_def documented_mask_test_def)

subsection \<open>The destination planes\<close>

lemma GWKSetPixelValue_keeps_dst_planes:
  "GWKSetPixelValue P poWK iBand iDstOffset d re im = Inr (r, poWK')
   \<Longrightarrow> panDstValid poWK' = panDstValid poWK \<and> pafDstDensity poWK' = pafDstDensity poWK"
  using GWKSetPixelValue_frame [of P poWK iBand iDstOffset d re im r poWK'] by auto

text \<open>
  C4. The claim has every composited contribution raise \<^verbatim>\<open>pafDstDensity[i]\<close> to at
  least its density and set bit i of \<^verbatim>\<open>panDstValid\<close>. \<^verbatim>\<open>GWKSetPixelValue\<close> stores the
  value and nothing else (its opening comment says the density and valid flag updates are
  still to be added). On S1 with both destination planes present, the store of pixel 3 and
  the whole warp write the image and leave both planes as they were.
\<close>

theorem dst_planes_are_never_updated:
  "map_sum id (\<lambda>r. (papabyDstImage (snd r), panDstValid (snd r), pafDstDensity (snd r)))
     (GWKSetPixelValue P dst_planes_kernel 0 3 1 9 0)
     = Inr ([[0, 0, 0, 9, 0, 0, 0, 0, 0, 0, 0, 0, 0, 0, 0, 0]], Some [0],
            Some [0, 0, 0, 0, 0, 0, 0, 0, 0, 0, 0, 0, 0, 0, 0, 0])
   \<and> map_sum id
        (\<lambda>st. (papabyDstImage (kernel st), panDstValid (kernel st), pafDstDensity (kernel st)))
        (PerformWarp P dst_planes_kernel)
     = Inr ([[0, 1, 2, 3, 4, 5, 6, 7, 8, 9, 10, 11, 12, 13, 14, 15]], Some [0],
            Some [0, 0, 0, 0, 0, 0, 0, 0, 0, 0, 0, 0, 0, 0, 0, 0])"
  by (simp add: warp_unfold dst_planes_kernel_def s1_kernel_def identity_transformer_def)

subsection \<open>Validation\<close>

lemma Validate_accepts_everything: "Validate poWK = CE_None"
  by (simp add: Validate_def)

text \<open>
  C5. The claim has \<^verbatim>\<open>PerformWarp\<close> refuse an invalid configuration before any
  callback runs. \<^verbatim>\<open>Validate\<close> consists of \<^verbatim>\<open>return CE_None\<close>, although its own
  documentation promises \<^verbatim>\<open>CE_Failure\<close> for an invalid configuration and the
  documentation of \<^verbatim>\<open>eWorkingDataType\<close> says it may not be \<^verbatim>\<open>GDT_Unknown\<close>. With the
  data type \<^verbatim>\<open>GDT_Unknown\<close>, and with no band, the warp runs to the end and returns
  \<^verbatim>\<open>CE_None\<close> after four transformer calls and five progress calls.
\<close>

theorem invalid_kernels_are_warped:
  "Validate unknown_type_kernel = CE_None
   \<and> map_sum id (\<lambda>st. (eErr st, transformer_calls st, length (progress_log st)))
       (PerformWarp P unknown_type_kernel) = Inr (CE_None, 4, 5)
   \<and> Validate no_band_kernel = CE_None
   \<and> map_sum id (\<lambda>st. (eErr st, transformer_calls st, length (progress_log st)))
       (PerformWarp P no_band_kernel) = Inr (CE_None, 4, 5)"
  by (simp add: warp_unfold unknown_type_kernel_def no_band_kernel_def s1_kernel_def
        identity_transformer_def)

subsection \<open>The identity warp\<close>

text \<open>
  C7. On scenario S1 (bytes, one band, a 4 by 4 source holding 0 to 15 in row-major
  order, zero offsets, a zeroed 4 by 4 destination, nearest neighbour, the identity
  transformer with every success flag set, no validity or density plane, a progress
  callback that always continues) \<^verbatim>\<open>PerformWarp\<close> returns \<^verbatim>\<open>CE_None\<close> and the
  destination equals the source, pixel by pixel. This holds on every platform.
\<close>

theorem identity_warp_copies_source:
  "map_sum id (\<lambda>st. (eErr st, papabyDstImage (kernel st))) (PerformWarp P s1_kernel)
     = Inr (CE_None, [[0, 1, 2, 3, 4, 5, 6, 7, 8, 9, 10, 11, 12, 13, 14, 15]])
   \<and> papabySrcImage s1_kernel = [[0, 1, 2, 3, 4, 5, 6, 7, 8, 9, 10, 11, 12, 13, 14, 15]]"
  by (simp add: warp_unfold s1_kernel_def identity_transformer_def)

subsection \<open>Lines on which no pixel is stored\<close>

lemma band_body_not_nearest:
  "eResample poWK \<noteq> GRA_NearestNeighbour
   \<Longrightarrow> band_body P poWK iSrcOffset iDstOffset iBand = Inr poWK"
  by (simp add: band_body_def bind_fault_def)

lemma band_loop_not_nearest:
  "eResample poWK \<noteq> GRA_NearestNeighbour
   \<Longrightarrow> band_loop P poWK iSrcOffset iDstOffset iBand = Inr poWK"
proof (induction P poWK iSrcOffset iDstOffset iBand rule: band_loop.induct)
  case (1 P poWK iSrcOffset iDstOffset iBand)
  show ?case
  proof (cases "iBand < nBands poWK")
    case True
    have "band_loop P poWK iSrcOffset iDstOffset iBand
            = band_loop P poWK iSrcOffset iDstOffset (iBand + 1)"
      using True "1.prems"
      by (subst band_loop.simps) (simp add: band_body_not_nearest bind_fault_def)
    also have "\<dots> = Inr poWK"
      using "1.IH" [OF True band_body_not_nearest [OF "1.prems"] "1.prems"] .
    finally show ?thesis .
  next
    case False
    then show ?thesis by (subst band_loop.simps) simp
  qed
qed

lemma dst_offset_bounds:
  fixes iDstX iDstY w h :: int
  assumes "0 \<le> iDstX" "iDstX < w" "0 \<le> iDstY" "iDstY < h"
  shows "0 \<le> iDstX + iDstY * w \<and> iDstX + iDstY * w < w * h"
proof -
  have w: "0 \<le> w" using assms by linarith
  have "iDstY * w \<le> (h - 1) * w"
    using assms w by (intro mult_right_mono) auto
  then have "iDstX + iDstY * w < w + (h - 1) * w" using assms by linarith
  also have "\<dots> = w * h" by (simp add: algebra_simps)
  finally show ?thesis using assms w by simp
qed

lemma dst_already_valid_defined:
  assumes "dst_valid_plane_ok poWK" "0 \<le> off" "off < nDstXSize poWK * nDstYSize poWK"
  shows "\<exists>b. dst_already_valid poWK off = Inr b"
proof (cases "panDstValid poWK")
  case None
  then show ?thesis by (auto simp: dst_already_valid_def)
next
  case (Some v)
  have "off < 32 * int (length v)"
    using assms Some by (simp add: dst_valid_plane_ok_def)
  then have "0 \<le> off div 32 \<and> off div 32 < int (length v)"
    using assms(2) by presburger
  then show ?thesis
    using Some by (auto simp: dst_already_valid_def bind_fault_def peek_def drop_bit_eq_div)
qed

lemma pixel_body_not_nearest:
  assumes "eResample poWK \<noteq> GRA_NearestNeighbour" "dst_valid_plane_ok poWK"
    "lDstXSize L = nDstXSize poWK" "0 \<le> iDstX" "iDstX < nDstXSize poWK"
    "0 \<le> iDstY" "iDstY < nDstYSize poWK"
  shows "pixel_body P L tr iDstY poWK iDstX = Inr poWK"
proof -
  have b: "0 \<le> iDstX + iDstY * nDstXSize poWK
           \<and> iDstX + iDstY * nDstXSize poWK < nDstXSize poWK * nDstYSize poWK"
    using assms by (intro dst_offset_bounds) auto
  obtain bSet where "dst_already_valid poWK (iDstX + iDstY * nDstXSize poWK) = Inr bSet"
    using dst_already_valid_defined [OF assms(2)] b by blast
  then show ?thesis
    using assms(1,3)
    by (simp add: pixel_body_def bind_fault_def band_loop_not_nearest Let_def
          split: option.splits)
qed


lemma pixel_loop_skip:
  assumes "\<And>x. iDstX \<le> x \<Longrightarrow> x < lDstXSize L \<Longrightarrow> pixel_body P L tr iDstY poWK x = Inr poWK"
  shows "pixel_loop P L tr iDstY poWK iDstX = Inr poWK"
  using assms
proof (induction P L tr iDstY poWK iDstX rule: pixel_loop.induct)
  case (1 P L tr iDstY poWK iDstX)
  show ?case
  proof (cases "iDstX < lDstXSize L")
    case True
    have body: "pixel_body P L tr iDstY poWK iDstX = Inr poWK"
      using True "1.prems" by simp
    have "pixel_loop P L tr iDstY poWK iDstX = pixel_loop P L tr iDstY poWK (iDstX + 1)"
      by (subst pixel_loop.simps) (simp add: True body bind_fault_def)
    also have "\<dots> = Inr poWK"
      using "1.IH" [OF True body] "1.prems" by simp
    finally show ?thesis .
  next
    case False
    then show ?thesis by (subst pixel_loop.simps) simp
  qed
qed

lemma row_body_skip:
  assumes "\<And>x. 0 \<le> x \<Longrightarrow> x < lDstXSize L \<Longrightarrow>
             pixel_body P L (transform_row (kernel st) L (transformer_calls st) iDstY) iDstY
               (kernel st) x = Inr (kernel st)"
  shows "row_body P L st iDstY = Inr (after_idle_row L st iDstY)"
proof -
  have "pixel_loop P L (transform_row (kernel st) L (transformer_calls st) iDstY) iDstY
          (kernel st) 0 = Inr (kernel st)"
    using assms by (intro pixel_loop_skip) auto
  then show ?thesis
    by (simp add: row_body_def Let_def bind_fault_def after_idle_row_def)
qed

lemma row_loop_skip:
  assumes "\<And>k y x. iDstY \<le> y \<Longrightarrow> y < lDstYSize L \<Longrightarrow> 0 \<le> x \<Longrightarrow> x < lDstXSize L \<Longrightarrow>
             pixel_body P L (transform_row (kernel st) L k y) y (kernel st) x = Inr (kernel st)"
  shows "\<exists>st'. row_loop P L st iDstY = Inr st' \<and> kernel st' = kernel st
               \<and> live_arrays st' = live_arrays st
               \<and> ((\<forall>k f. pfnProgress (kernel st) k f) \<and> eErr st = CE_None
                    \<longrightarrow> eErr st' = CE_None)"
  using assms
proof (induction P L st iDstY rule: row_loop.induct)
  case (1 P L st iDstY)
  show ?case
  proof (cases "iDstY < lDstYSize L \<and> eErr st = CE_None")
    case True
    define st1 where "st1 = after_idle_row L st iDstY"
    have body: "row_body P L st iDstY = Inr st1"
      unfolding st1_def using True "1.prems" by (intro row_body_skip) auto
    have k1: "kernel st1 = kernel st" "live_arrays st1 = live_arrays st"
      by (simp_all add: st1_def after_idle_row_def)
    have step: "row_loop P L st iDstY = row_loop P L st1 (iDstY + 1)"
      by (subst row_loop.simps) (simp add: True body bind_fault_def)
    obtain st' where st': "row_loop P L st1 (iDstY + 1) = Inr st'" "kernel st' = kernel st1"
        "live_arrays st' = live_arrays st1"
        "(\<forall>k f. pfnProgress (kernel st1) k f) \<and> eErr st1 = CE_None \<longrightarrow> eErr st' = CE_None"
      using "1.IH" [OF True body] "1.prems" k1 by auto
    have "(\<forall>k f. pfnProgress (kernel st) k f) \<and> eErr st = CE_None \<longrightarrow> eErr st1 = CE_None"
      by (simp add: st1_def after_idle_row_def)
    then show ?thesis using step st' k1 by auto
  next
    case False
    then have "row_loop P L st iDstY = Inr st" by (subst row_loop.simps) auto
    then show ?thesis by simp
  qed
qed

lemma PerformWarp_skip:
  assumes "\<And>k y x. 0 \<le> y \<Longrightarrow> y < nDstYSize poWK \<Longrightarrow> 0 \<le> x \<Longrightarrow> x < nDstXSize poWK \<Longrightarrow>
             pixel_body P (gwk_locals_of poWK) (transform_row poWK (gwk_locals_of poWK) k y) y
               poWK x = Inr poWK"
  shows "\<exists>st. PerformWarp P poWK = Inr st \<and> kernel st = poWK \<and> live_arrays st = 0
              \<and> ((\<forall>k f. pfnProgress poWK k f) \<longrightarrow> eErr st = CE_None)"
proof -
  let ?L = "gwk_locals_of poWK"
  let ?f = "progress_fraction poWK ?L (iDstY_indeterminate P)"
  let ?st0 = "\<lparr>kernel = poWK, eErr = CE_None, progress_log = [?f],
               transformer_calls = 0, live_arrays = 4\<rparr>"
  show ?thesis
  proof (cases "pfnProgress poWK 0 ?f")
    case False
    then show ?thesis
      by (auto simp: PerformWarp_def Validate_def GWKGeneralCase_def Let_def)
  next
    case True
    obtain st' where st': "row_loop P ?L ?st0 0 = Inr st'" "kernel st' = poWK"
        "live_arrays st' = 4" "(\<forall>k f. pfnProgress poWK k f) \<longrightarrow> eErr st' = CE_None"
      using row_loop_skip [of 0 ?L P ?st0] assms
      by (auto simp: gwk_locals_of_def)
    then show ?thesis
      using True
      by (auto simp: PerformWarp_def Validate_def GWKGeneralCase_def Let_def bind_fault_def)
  qed
qed

subsection \<open>What a run changes\<close>

lemma only_dst_refl: "only_dst_image_changed poWK poWK"
proof -
  have "poWK = poWK\<lparr>papabyDstImage := papabyDstImage poWK\<rparr>" by simp
  then show ?thesis unfolding only_dst_image_changed_def by blast
qed

lemma only_dst_trans:
  "only_dst_image_changed k k1 \<Longrightarrow> only_dst_image_changed k1 k2 \<Longrightarrow> only_dst_image_changed k k2"
  unfolding only_dst_image_changed_def by auto

lemma only_dst_fields:
  assumes "only_dst_image_changed k k'"
  shows "pfnProgress k' = pfnProgress k" "pfnTransformer k' = pfnTransformer k"
    "dfProgressBase k' = dfProgressBase k" "dfProgressScale k' = dfProgressScale k"
    "nDstXOff k' = nDstXOff k" "nDstYOff k' = nDstYOff k"
    "nBands k' = nBands k" "eResample k' = eResample k"
    "eWorkingDataType k' = eWorkingDataType k"
    "panDstValid k' = panDstValid k" "pafDstDensity k' = pafDstDensity k"
  using assms unfolding only_dst_image_changed_def by auto

lemma band_loop_frame:
  "band_loop P poWK iSrcOffset iDstOffset iBand = Inr poWK'
   \<Longrightarrow> only_dst_image_changed poWK poWK'"
proof (induction P poWK iSrcOffset iDstOffset iBand rule: band_loop.induct)
  case (1 P poWK iSrcOffset iDstOffset iBand)
  show ?case
  proof (cases "iBand < nBands poWK")
    case True
    then obtain k1 where b: "band_body P poWK iSrcOffset iDstOffset iBand = Inr k1"
      and l: "band_loop P k1 iSrcOffset iDstOffset (iBand + 1) = Inr poWK'"
      using "1.prems"
      by (subst (asm) band_loop.simps) (auto simp: bind_fault_def split: sum.splits)
    have "only_dst_image_changed poWK k1"
      using band_body_frame [OF b] by (simp add: only_dst_image_changed_def)
    then show ?thesis
      using "1.IH" [OF True b l] only_dst_trans by blast
  next
    case False
    then have "poWK' = poWK"
      using "1.prems" by (subst (asm) band_loop.simps) simp
    then show ?thesis by (simp add: only_dst_refl)
  qed
qed

lemma pixel_body_frame:
  assumes "pixel_body P L tr iDstY poWK iDstX = Inr poWK'"
  shows "only_dst_image_changed poWK poWK'"
  using assms
  by (auto simp: pixel_body_def bind_fault_def Let_def only_dst_refl band_loop_frame
           split: if_splits option.splits sum.splits)

lemma pixel_loop_frame:
  "pixel_loop P L tr iDstY poWK iDstX = Inr poWK'
   \<Longrightarrow> only_dst_image_changed poWK poWK'"
proof (induction P L tr iDstY poWK iDstX rule: pixel_loop.induct)
  case (1 P L tr iDstY poWK iDstX)
  show ?case
  proof (cases "iDstX < lDstXSize L")
    case True
    then obtain k1 where b: "pixel_body P L tr iDstY poWK iDstX = Inr k1"
      and l: "pixel_loop P L tr iDstY k1 (iDstX + 1) = Inr poWK'"
      using "1.prems"
      by (subst (asm) pixel_loop.simps) (auto simp: bind_fault_def split: sum.splits)
    show ?thesis
      using "1.IH" [OF True b l] pixel_body_frame [OF b] only_dst_trans by blast
  next
    case False
    then have "poWK' = poWK"
      using "1.prems" by (subst (asm) pixel_loop.simps) simp
    then show ?thesis by (simp add: only_dst_refl)
  qed
qed

lemma row_body_result:
  assumes "row_body P L st iDstY = Inr st'"
  shows "only_dst_image_changed (kernel st) (kernel st')
       \<and> st' = (after_idle_row L st iDstY)\<lparr>kernel := kernel st'\<rparr>
       \<and> pixel_loop P L (transform_row (kernel st) L (transformer_calls st) iDstY)
           iDstY (kernel st) 0 = Inr (kernel st')"
proof -
  obtain k1 where p: "pixel_loop P L (transform_row (kernel st) L (transformer_calls st) iDstY)
      iDstY (kernel st) 0 = Inr k1"
    and st': "st' = st\<lparr>kernel := k1,
                          eErr := (if pfnProgress k1 (length (progress_log st)) (progress_fraction k1 L iDstY) then eErr st else CE_Failure),
                          progress_log := progress_log st @ [progress_fraction k1 L iDstY],
                          transformer_calls := Suc (transformer_calls st)\<rparr>"
    using assms by (auto simp: row_body_def Let_def bind_fault_def split: sum.splits)
  have f: "only_dst_image_changed (kernel st) k1"
    using pixel_loop_frame [OF p] .
  have "st' = (after_idle_row L st iDstY)\<lparr>kernel := k1\<rparr>"
    using only_dst_fields [OF f] by (simp add: st' after_idle_row_def progress_fraction_def)
  then show ?thesis using f p by (simp add: st')
qed

lemma row_loop_log:
  assumes "row_loop P L st iDstY = Inr st'" "\<forall>k f. pfnProgress (kernel st) k f"
    "eErr st = CE_None"
  shows "eErr st' = CE_None
       \<and> progress_log st' = progress_log st @ map (progress_fraction (kernel st) L) [iDstY..lDstYSize L - 1]
       \<and> transformer_calls st' = transformer_calls st + nat (lDstYSize L - iDstY)
       \<and> live_arrays st' = live_arrays st
       \<and> only_dst_image_changed (kernel st) (kernel st')"
  using assms
proof (induction P L st iDstY rule: row_loop.induct)
  case (1 P L st iDstY)
  show ?case
  proof (cases "iDstY < lDstYSize L")
    case True
    then obtain st1 where b: "row_body P L st iDstY = Inr st1"
      and l: "row_loop P L st1 (iDstY + 1) = Inr st'"
      using "1.prems"
      by (subst (asm) row_loop.simps) (auto simp: bind_fault_def split: sum.splits)
    have f1: "only_dst_image_changed (kernel st) (kernel st1)"
      and st1: "st1 = (after_idle_row L st iDstY)\<lparr>kernel := kernel st1\<rparr>"
      using row_body_result [OF b] by auto
    note fl = only_dst_fields [OF f1]
    have e1: "eErr st1 = CE_None" "\<forall>k f. pfnProgress (kernel st1) k f"
      "progress_log st1 = progress_log st @ [progress_fraction (kernel st) L iDstY]"
      "transformer_calls st1 = Suc (transformer_calls st)" "live_arrays st1 = live_arrays st"
      using "1.prems" fl by (subst st1, simp add: after_idle_row_def)+
    have pf: "progress_fraction (kernel st1) L = progress_fraction (kernel st) L"
      using fl by (simp add: progress_fraction_def fun_eq_iff)
    have T: "iDstY < lDstYSize L \<and> eErr st = CE_None" using True "1.prems" by simp
    note IH = "1.IH" [OF T b l e1(2) e1(1)]
    have up: "[iDstY..lDstYSize L - 1] = iDstY # [iDstY + 1..lDstYSize L - 1]"
      using True by (simp add: upto_rec1)
    have "only_dst_image_changed (kernel st) (kernel st')"
      using IH f1 only_dst_trans by blast
    then show ?thesis
      using IH e1 pf up True by (auto simp: nat_diff_distrib)
  next
    case False
    then have "st' = st" using "1.prems" by (subst (asm) row_loop.simps) simp
    then show ?thesis using False "1.prems" by (auto simp: only_dst_refl)
  qed
qed

lemma GWKGeneralCase_log:
  assumes "\<forall>k f. pfnProgress poWK k f" "PerformWarp P poWK = Inr st"
  shows "eErr st = CE_None
       \<and> progress_log st =
           progress_fraction poWK (gwk_locals_of poWK) (iDstY_indeterminate P)
           # map (progress_fraction poWK (gwk_locals_of poWK)) [0..nDstYSize poWK - 1]
       \<and> transformer_calls st = nat (nDstYSize poWK)
       \<and> live_arrays st = 0
       \<and> only_dst_image_changed poWK (kernel st)"
proof -
  let ?L = "gwk_locals_of poWK"
  let ?f = "progress_fraction poWK ?L (iDstY_indeterminate P)"
  let ?st0 = "\<lparr>kernel = poWK, eErr = CE_None, progress_log = [?f],
               transformer_calls = 0, live_arrays = 4\<rparr>"
  obtain st1 where l: "row_loop P ?L ?st0 0 = Inr st1" and st: "st = st1\<lparr>live_arrays := live_arrays st1 - 4\<rparr>"
    using assms
    by (auto simp: PerformWarp_def Validate_def GWKGeneralCase_def Let_def bind_fault_def
             split: sum.splits)
  have "lDstYSize ?L = nDstYSize poWK" by (simp add: gwk_locals_of_def)
  then show ?thesis
    using row_loop_log [OF l] assms(1) by (simp add: st)
qed

subsection \<open>Bilinear and cubic resampling\<close>

lemma pixel_body_unchanged:
  "eResample k \<noteq> GRA_NearestNeighbour \<Longrightarrow> pixel_body P L tr y k x = Inr k' \<Longrightarrow> k' = k"
  by (auto simp: pixel_body_def bind_fault_def Let_def band_loop_not_nearest
           split: if_splits option.splits sum.splits)

lemma pixel_loop_unchanged:
  "eResample k \<noteq> GRA_NearestNeighbour \<Longrightarrow> pixel_loop P L tr y k x = Inr k' \<Longrightarrow> k' = k"
proof (induction P L tr y k x rule: pixel_loop.induct)
  case (1 P L tr y k x)
  show ?case
  proof (cases "x < lDstXSize L")
    case True
    then obtain k1 where b: "pixel_body P L tr y k x = Inr k1"
      and l: "pixel_loop P L tr y k1 (x + 1) = Inr k'"
      using "1.prems"(2)
      by (subst (asm) pixel_loop.simps) (auto simp: bind_fault_def split: sum.splits)
    have k1: "k1 = k" using pixel_body_unchanged [OF "1.prems"(1) b] .
    show ?thesis using "1.IH" [OF True b _ l] "1.prems"(1) k1 by simp
  next
    case False
    then show ?thesis using "1.prems"(2) by (subst (asm) pixel_loop.simps) simp
  qed
qed

lemma row_loop_unchanged:
  "eResample (kernel st) \<noteq> GRA_NearestNeighbour \<Longrightarrow> row_loop P L st y = Inr st'
   \<Longrightarrow> kernel st' = kernel st"
proof (induction P L st y rule: row_loop.induct)
  case (1 P L st y)
  show ?case
  proof (cases "y < lDstYSize L \<and> eErr st = CE_None")
    case True
    then obtain st1 where b: "row_body P L st y = Inr st1"
      and l: "row_loop P L st1 (y + 1) = Inr st'"
      using "1.prems"(2)
      by (subst (asm) row_loop.simps) (auto simp: bind_fault_def split: sum.splits)
    have k1: "kernel st1 = kernel st"
      using row_body_result [OF b] pixel_loop_unchanged [OF "1.prems"(1)] by blast
    show ?thesis using "1.IH" [OF True b _ l] "1.prems"(1) k1 by simp
  next
    case False
    then show ?thesis using "1.prems"(2) by (subst (asm) row_loop.simps) auto
  qed
qed

lemma PerformWarp_unchanged:
  assumes "eResample poWK \<noteq> GRA_NearestNeighbour" "PerformWarp P poWK = Inr st"
  shows "kernel st = poWK"
proof -
  let ?L = "gwk_locals_of poWK"
  let ?f = "progress_fraction poWK ?L (iDstY_indeterminate P)"
  let ?st0 = "\<lparr>kernel = poWK, eErr = CE_None, progress_log = [?f],
               transformer_calls = 0, live_arrays = 4\<rparr>"
  show ?thesis
  proof (cases "pfnProgress poWK 0 ?f")
    case False
    then show ?thesis
      using assms(2) by (auto simp: PerformWarp_def Validate_def GWKGeneralCase_def Let_def)
  next
    case True
    then obtain st1 where l: "row_loop P ?L ?st0 0 = Inr st1"
      and st: "st = st1\<lparr>live_arrays := live_arrays st1 - 4\<rparr>"
      using assms(2)
      by (auto simp: PerformWarp_def Validate_def GWKGeneralCase_def Let_def bind_fault_def
               split: sum.splits)
    have "kernel st1 = kernel ?st0"
      using l assms(1) by (intro row_loop_unchanged) auto
    then show ?thesis by (simp add: st)
  qed
qed

text \<open>
  C1. With \<^verbatim>\<open>eResample\<close> bilinear or cubic, every run of \<^verbatim>\<open>PerformWarp\<close> that
  returns leaves the kernel, and so every destination band buffer, exactly as it was, and
  returns \<^verbatim>\<open>CE_None\<close> when the progress callback always continues: both branches of
  the band loop are empty, the density stays 0 and \<^verbatim>\<open>GWKSetPixelValue\<close> is never
  reached (\<open>band_body_not_nearest\<close>). The run does return, with the scanline arrays
  released, on every kernel whose destination validity plane (if there is one) has a bit
  for each destination pixel, the only memory these modes read.
\<close>

theorem bilinear_cubic_leave_destination:
  assumes "eResample poWK = GRA_Bilinear \<or> eResample poWK = GRA_Cubic"
  shows "(\<forall>st. PerformWarp P poWK = Inr st
            \<longrightarrow> kernel st = poWK \<and> ((\<forall>k f. pfnProgress poWK k f) \<longrightarrow> eErr st = CE_None))
       \<and> (dst_valid_plane_ok poWK \<longrightarrow> (\<exists>st. PerformWarp P poWK = Inr st \<and> live_arrays st = 0))"
proof -
  have nn: "eResample poWK \<noteq> GRA_NearestNeighbour" using assms(1) by auto
  have a: "kernel st = poWK \<and> ((\<forall>k f. pfnProgress poWK k f) \<longrightarrow> eErr st = CE_None)"
    if "PerformWarp P poWK = Inr st" for st
    using PerformWarp_unchanged [OF nn that] GWKGeneralCase_log [of poWK P st] that by blast
  have b: "\<exists>st. PerformWarp P poWK = Inr st \<and> live_arrays st = 0" if ok: "dst_valid_plane_ok poWK"
  proof -
    have "\<exists>st. PerformWarp P poWK = Inr st \<and> kernel st = poWK \<and> live_arrays st = 0
              \<and> ((\<forall>k f. pfnProgress poWK k f) \<longrightarrow> eErr st = CE_None)"
    proof (rule PerformWarp_skip)
      fix k y x
      assume "0 \<le> y" "y < nDstYSize poWK" "0 \<le> x" "x < nDstXSize poWK"
      then show "pixel_body P (gwk_locals_of poWK) (transform_row poWK (gwk_locals_of poWK) k y) y
                 poWK x = Inr poWK"
        using nn ok by (intro pixel_body_not_nearest) (auto simp: gwk_locals_of_def)
    qed
    then show ?thesis by blast
  qed
  show ?thesis using a b by blast
qed

theorem bilinear_cubic_leave_destination_witness:
  "(eResample bilinear_kernel = GRA_Bilinear \<or> eResample bilinear_kernel = GRA_Cubic)
   \<and> dst_valid_plane_ok bilinear_kernel
   \<and> (\<forall>k f. pfnProgress bilinear_kernel k f)
   \<and> (\<exists>st. PerformWarp example_platform bilinear_kernel = Inr st \<and> kernel st = bilinear_kernel
            \<and> papabyDstImage (kernel st) = [[0, 0, 0, 0, 0, 0, 0, 0, 0, 0, 0, 0, 0, 0, 0, 0]]
            \<and> eErr st = CE_None \<and> live_arrays st = 0)"
proof -
  have h1: "eResample bilinear_kernel = GRA_Bilinear \<or> eResample bilinear_kernel = GRA_Cubic"
    by (simp add: bilinear_kernel_def)
  have h2: "dst_valid_plane_ok bilinear_kernel"
    by (simp add: dst_valid_plane_ok_def bilinear_kernel_def s1_kernel_def)
  have h3: "\<forall>k f. pfnProgress bilinear_kernel k f"
    by (simp add: bilinear_kernel_def s1_kernel_def)
  have img: "papabyDstImage bilinear_kernel = [[0, 0, 0, 0, 0, 0, 0, 0, 0, 0, 0, 0, 0, 0, 0, 0]]"
    by (simp add: bilinear_kernel_def s1_kernel_def)
  note t = bilinear_cubic_leave_destination [OF h1, of example_platform]
  obtain st where st: "PerformWarp example_platform bilinear_kernel = Inr st" "live_arrays st = 0"
    using t h2 by blast
  have "kernel st = bilinear_kernel" "eErr st = CE_None"
    using t st(1) h3 by blast+
  then show ?thesis using h1 h2 h3 img st by auto
qed

subsection \<open>The transformer's answers\<close>




subsection \<open>Progress reports\<close>




subsection \<open>The progress callback does not influence the pixels\<close>

lemma with_progress_fields [simp]:
  "eResample (with_progress g k) = eResample k"
  "eWorkingDataType (with_progress g k) = eWorkingDataType k"
  "nBands (with_progress g k) = nBands k"
  "papabyDstImage (with_progress g k) = papabyDstImage k"
  "pfnProgress (with_progress g k) = g"
  "pfnTransformer (with_progress g k) = pfnTransformer k"
  "nDstXSize (with_progress g k) = nDstXSize k"
  "nDstYSize (with_progress g k) = nDstYSize k"
  "gwk_locals_of (with_progress g k) = gwk_locals_of k"
  "progress_fraction (with_progress g k) = progress_fraction k"
  "transform_row (with_progress g k) = transform_row k"
  "src_offset P (with_progress g k) = src_offset P k"
  "dst_already_valid (with_progress g k) = dst_already_valid k"
  "GWKGetPixelValue (with_progress g k) = GWKGetPixelValue k"
  by (simp_all add: with_progress_def gwk_locals_of_def res_win_size_def progress_fraction_def
        transform_row_def src_offset_def dst_already_valid_def GWKGetPixelValue_def
        unified_src_valid_def band_src_valid_def src_density_def fun_eq_iff
        cong: if_cong)

lemma GWKSetPixelValue_with_progress:
  "GWKSetPixelValue P (with_progress g k) iBand off d re im
     = map_sum id (\<lambda>r. (fst r, with_progress g (snd r))) (GWKSetPixelValue P k iBand off d re im)"
  by (simp add: GWKSetPixelValue_def with_progress_def split: sum.splits)

lemma band_body_with_progress:
  "band_body P (with_progress g k) so do b = map_sum id (with_progress g) (band_body P k so do b)"
  by (simp add: band_body_def bind_fault_def GWKSetPixelValue_with_progress
        split: sum.splits prod.splits)

lemma band_loop_with_progress:
  "band_loop P (with_progress g k) so do b = map_sum id (with_progress g) (band_loop P k so do b)"
proof (induction P k so do b rule: band_loop.induct)
  case (1 P k so do b)
  show ?case
  proof (cases "b < nBands k")
    case True
    show ?thesis
    proof (cases "band_body P k so do b")
      case (Inl e)
      then show ?thesis
        using True
        by (subst band_loop.simps, subst (2) band_loop.simps)
           (simp add: band_body_with_progress bind_fault_def id_def)
    next
      case (Inr k1)
      then show ?thesis
        using True "1.IH" [OF True Inr]
        by (subst band_loop.simps, subst (2) band_loop.simps)
           (simp add: band_body_with_progress bind_fault_def id_def)
    qed
  next
    case False
    then show ?thesis
      by (subst band_loop.simps, subst (2) band_loop.simps) simp
  qed
qed

lemma pixel_body_with_progress:
  "pixel_body P L tr y (with_progress g k) x = map_sum id (with_progress g) (pixel_body P L tr y k x)"
  by (simp add: pixel_body_def bind_fault_def band_loop_with_progress Let_def
        split: sum.splits option.splits)

lemma pixel_loop_with_progress:
  "pixel_loop P L tr y (with_progress g k) x = map_sum id (with_progress g) (pixel_loop P L tr y k x)"
proof (induction P L tr y k x rule: pixel_loop.induct)
  case (1 P L tr y k x)
  show ?case
  proof (cases "x < lDstXSize L")
    case True
    show ?thesis
    proof (cases "pixel_body P L tr y k x")
      case (Inl e)
      then show ?thesis
        using True
        by (subst pixel_loop.simps, subst (2) pixel_loop.simps)
           (simp add: pixel_body_with_progress bind_fault_def id_def)
    next
      case (Inr k1)
      then show ?thesis
        using True "1.IH" [OF True Inr]
        by (subst pixel_loop.simps, subst (2) pixel_loop.simps)
           (simp add: pixel_body_with_progress bind_fault_def id_def)
    qed
  next
    case False
    then show ?thesis
      by (subst pixel_loop.simps, subst (2) pixel_loop.simps) simp
  qed
qed

subsection \<open>Where a line stores\<close>

text \<open>
  A function \<open>f\<close> of a band buffer that does not see the slots of the pixels a loop
  visits has the same value after the loop.
\<close>

lemma set_pixel_switch_blind:
  assumes "set_pixel_switch P t buf off re im = Inr (r, buf')"
    and "\<And>j b v. j \<in> pixel_slots t off \<Longrightarrow> f (b[j := v]) = f b"
  shows "f buf' = f buf"
  using assms
  by (cases t) (auto simp: poke_def pixel_slots_def is_complex_def split: if_splits sum.splits)

lemma GWKSetPixelValue_blind:
  assumes "GWKSetPixelValue P k iBand off d re im = Inr (r, k')"
    and "\<And>j b v. j \<in> pixel_slots (eWorkingDataType k) off \<Longrightarrow> f (b[j := v]) = f b"
  shows "map f (papabyDstImage k') = map f (papabyDstImage k)"
proof -
  obtain buf buf' where b: "0 \<le> iBand" "iBand < int (length (papabyDstImage k))"
      "buf = papabyDstImage k ! nat iBand"
      "set_pixel_switch P (eWorkingDataType k) buf off re im = Inr (r, buf')"
      "papabyDstImage k' = (papabyDstImage k)[nat iBand := buf']"
    using assms(1)
    by (auto simp: GWKSetPixelValue_def peek_def split: sum.splits if_splits)
  have "f buf' = f buf" using set_pixel_switch_blind [OF b(4)] assms(2) by blast
  then have "map f (papabyDstImage k') = (map f (papabyDstImage k))[nat iBand := map f (papabyDstImage k) ! nat iBand]"
    using b by (simp add: map_update)
  then show ?thesis by simp
qed

lemma band_body_blind:
  assumes "band_body P k so off b = Inr k'"
    and "\<And>j b v. j \<in> pixel_slots (eWorkingDataType k) off \<Longrightarrow> f (b[j := v]) = f b"
  shows "map f (papabyDstImage k') = map f (papabyDstImage k)"
  using assms(1) GWKSetPixelValue_blind [of P k b off _ _ _ _ _ f] assms(2)
  by (auto simp: band_body_def bind_fault_def split: sum.splits if_splits prod.splits)

lemma band_loop_blind:
  assumes "band_loop P k so off b = Inr k'"
    and "\<And>j b v. j \<in> pixel_slots (eWorkingDataType k) off \<Longrightarrow> f (b[j := v]) = f b"
  shows "map f (papabyDstImage k') = map f (papabyDstImage k)"
  using assms
proof (induction P k so off b rule: band_loop.induct)
  case (1 P k so off b)
  show ?case
  proof (cases "b < nBands k")
    case True
    then obtain k1 where b: "band_body P k so off b = Inr k1"
      and l: "band_loop P k1 so off (b + 1) = Inr k'"
      using "1.prems"(1)
      by (subst (asm) band_loop.simps) (auto simp: bind_fault_def split: sum.splits)
    have t: "eWorkingDataType k1 = eWorkingDataType k"
      using band_body_frame [OF b] by auto
    have "map f (papabyDstImage k') = map f (papabyDstImage k1)"
      using "1.IH" [OF True b l] "1.prems"(2) t by simp
    also have "\<dots> = map f (papabyDstImage k)"
      using band_body_blind [OF b] "1.prems"(2) by blast
    finally show ?thesis .
  next
    case False
    then have "k' = k" using "1.prems"(1) by (subst (asm) band_loop.simps) simp
    then show ?thesis by simp
  qed
qed

lemma pixel_body_blind:
  assumes "pixel_body P L tr y k x = Inr k'"
    and "\<And>j b v. j \<in> pixel_slots (eWorkingDataType k) (x + y * lDstXSize L)
           \<Longrightarrow> f (b[j := v]) = f b"
  shows "map f (papabyDstImage k') = map f (papabyDstImage k)"
  using assms(1) band_loop_blind [of P k _ "x + y * lDstXSize L" 0 k' f] assms(2)
  by (auto simp: pixel_body_def bind_fault_def Let_def split: sum.splits if_splits option.splits)

lemma pixel_loop_blind:
  assumes "pixel_loop P L tr y k x0 = Inr k'"
    and "\<And>x j b v. x0 \<le> x \<Longrightarrow> x < lDstXSize L
           \<Longrightarrow> j \<in> pixel_slots (eWorkingDataType k) (x + y * lDstXSize L)
           \<Longrightarrow> f (b[j := v]) = f b"
  shows "map f (papabyDstImage k') = map f (papabyDstImage k)"
  using assms
proof (induction P L tr y k x0 rule: pixel_loop.induct)
  case (1 P L tr y k x0)
  show ?case
  proof (cases "x0 < lDstXSize L")
    case True
    then obtain k1 where b: "pixel_body P L tr y k x0 = Inr k1"
      and l: "pixel_loop P L tr y k1 (x0 + 1) = Inr k'"
      using "1.prems"(1)
      by (subst (asm) pixel_loop.simps) (auto simp: bind_fault_def split: sum.splits)
    have t: "eWorkingDataType k1 = eWorkingDataType k"
      using only_dst_fields [OF pixel_body_frame [OF b]] by simp
    have "map f (papabyDstImage k') = map f (papabyDstImage k1)"
    proof (rule "1.IH" [OF True b l])
      fix x j b v
      assume "x0 + 1 \<le> x" "x < lDstXSize L"
        "j \<in> pixel_slots (eWorkingDataType k1) (x + y * lDstXSize L)"
      then show "f (b[j := v]) = f b" using "1.prems"(2) [of x j b v] t by simp
    qed
    also have "\<dots> = map f (papabyDstImage k)"
    proof (rule pixel_body_blind [OF b])
      fix j b v
      assume "j \<in> pixel_slots (eWorkingDataType k) (x0 + y * lDstXSize L)"
      then show "f (b[j := v]) = f b" using "1.prems"(2) [of x0 j b v] True by simp
    qed
    finally show ?thesis .
  next
    case False
    then have "k' = k" using "1.prems"(1) by (subst (asm) pixel_loop.simps) simp
    then show ?thesis by simp
  qed
qed

lemma row_body_blind:
  assumes "row_body P L st y = Inr st'"
    and "\<And>x j b v. 0 \<le> x \<Longrightarrow> x < lDstXSize L
           \<Longrightarrow> j \<in> pixel_slots (eWorkingDataType (kernel st)) (x + y * lDstXSize L)
           \<Longrightarrow> f (b[j := v]) = f b"
  shows "map f (papabyDstImage (kernel st')) = map f (papabyDstImage (kernel st))"
  using row_body_result [OF assms(1)] pixel_loop_blind [of P L _ y "kernel st" 0 "kernel st'" f]
    assms(2)
  by blast

lemma row_loop_blind:
  assumes "row_loop P L st y0 = Inr st'"
    and "\<And>x y j b v. y0 \<le> y \<Longrightarrow> y < lDstYSize L \<Longrightarrow> 0 \<le> x \<Longrightarrow> x < lDstXSize L
           \<Longrightarrow> j \<in> pixel_slots (eWorkingDataType (kernel st)) (x + y * lDstXSize L)
           \<Longrightarrow> f (b[j := v]) = f b"
  shows "map f (papabyDstImage (kernel st')) = map f (papabyDstImage (kernel st))"
  using assms
proof (induction P L st y0 rule: row_loop.induct)
  case (1 P L st y0)
  show ?case
  proof (cases "y0 < lDstYSize L \<and> eErr st = CE_None")
    case True
    then obtain st1 where b: "row_body P L st y0 = Inr st1"
      and l: "row_loop P L st1 (y0 + 1) = Inr st'"
      using "1.prems"(1)
      by (subst (asm) row_loop.simps) (auto simp: bind_fault_def split: sum.splits)
    have t: "eWorkingDataType (kernel st1) = eWorkingDataType (kernel st)"
      using row_body_result [OF b] only_dst_fields by blast
    have "map f (papabyDstImage (kernel st')) = map f (papabyDstImage (kernel st1))"
    proof (rule "1.IH" [OF True b l])
      fix x y j b v
      assume "y0 + 1 \<le> y" "y < lDstYSize L" "0 \<le> x" "x < lDstXSize L"
        "j \<in> pixel_slots (eWorkingDataType (kernel st1)) (x + y * lDstXSize L)"
      then show "f (b[j := v]) = f b" using "1.prems"(2) [of y x j b v] t by simp
    qed
    also have "\<dots> = map f (papabyDstImage (kernel st))"
    proof (rule row_body_blind [OF b])
      fix x j b v
      assume "0 \<le> x" "x < lDstXSize L"
        "j \<in> pixel_slots (eWorkingDataType (kernel st)) (x + y0 * lDstXSize L)"
      then show "f (b[j := v]) = f b" using "1.prems"(2) [of y0 x j b v] True by simp
    qed
    finally show ?thesis .
  next
    case False
    then have "st' = st" using "1.prems"(1) by (subst (asm) row_loop.simps) auto
    then show ?thesis by simp
  qed
qed

lemma take_blind_to_later_lines:
  fixes x y w R :: int
  assumes "0 \<le> x" "x < w" "R + 1 \<le> y" "0 \<le> R" "j \<in> pixel_slots t (x + y * w)"
  shows "take (nat (slots_per_pixel t * ((R + 1) * w))) (b[j := v])
           = take (nat (slots_per_pixel t * ((R + 1) * w))) b"
proof -
  have w: "0 \<le> w" using assms by linarith
  have "(R + 1) * w \<le> y * w" using assms w by (intro mult_right_mono) auto
  then have le: "(R + 1) * w \<le> x + y * w" using assms by linarith
  have "nat (slots_per_pixel t * ((R + 1) * w)) \<le> j"
    using assms(5) le assms(4) w
    by (auto simp: pixel_slots_def slots_per_pixel_def split: if_splits)
  then show ?thesis by (rule take_update_cancel)
qed

lemma drop_blind_to_earlier_lines:
  fixes x y w R :: int
  assumes "0 \<le> x" "x < w" "0 \<le> y" "y \<le> R" "j \<in> pixel_slots t (x + y * w)"
  shows "drop (nat (slots_per_pixel t * ((R + 1) * w))) (b[j := v])
           = drop (nat (slots_per_pixel t * ((R + 1) * w))) b"
proof -
  have w: "0 \<le> w" using assms by linarith
  have "(y + 1) * w \<le> (R + 1) * w" using assms w by (intro mult_right_mono) auto
  moreover have "(y + 1) * w = y * w + w" by (simp add: algebra_simps)
  ultimately have le: "x + y * w + 1 \<le> (R + 1) * w" using assms(2) by linarith
  have "0 \<le> y * w" using assms w by simp
  then have ge: "0 \<le> x + y * w" using assms by linarith
  have "j < nat (slots_per_pixel t * ((R + 1) * w))"
    using assms(5) le ge
    by (auto simp: pixel_slots_def slots_per_pixel_def split: if_splits)
  then show ?thesis by (rule drop_update_cancel)
qed

subsection \<open>Cancellation\<close>

lemma row_body_intro:
  assumes "pixel_loop P L (transform_row (kernel st) L (transformer_calls st) y) y (kernel st) 0
             = Inr k1"
  shows "row_body P L st y = Inr ((after_idle_row L st y)\<lparr>kernel := k1\<rparr>)"
proof -
  note fl = only_dst_fields [OF pixel_loop_frame [OF assms]]
  have "progress_fraction k1 L y = progress_fraction (kernel st) L y"
    using fl by (simp add: progress_fraction_def)
  then show ?thesis
    using assms fl by (simp add: row_body_def Let_def bind_fault_def after_idle_row_def)
qed

lemma cancelled_row_loop:
  fixes R :: int
  assumes "row_loop P L (s\<lparr>kernel := with_progress g (kernel s)\<rparr>) y = Inr t2"
    and "\<forall>k f. g k f"
    and "0 \<le> y" "y \<le> R" "R < lDstYSize L"
    and "eErr s = CE_None" "length (progress_log s) = nat y + 1"
    and "\<forall>r. y \<le> r \<and> r < R
           \<longrightarrow> pfnProgress (kernel s) (nat r + 1) (progress_fraction (kernel s) L r)"
    and "\<not> pfnProgress (kernel s) (nat R + 1) (progress_fraction (kernel s) L R)"
    and "n = nat (slots_per_pixel (eWorkingDataType (kernel s)) * ((R + 1) * lDstXSize L))"
  shows "\<exists>t. row_loop P L s y = Inr t \<and> eErr t = CE_Failure \<and> live_arrays t = live_arrays s
           \<and> map (take n) (papabyDstImage (kernel t)) = map (take n) (papabyDstImage (kernel t2))
           \<and> map (drop n) (papabyDstImage (kernel t)) = map (drop n) (papabyDstImage (kernel s))"
  using assms
proof (induction P L s y arbitrary: t2 rule: row_loop.induct)
  case (1 P L s y)
  let ?k = "kernel s"
  let ?s2 = "s\<lparr>kernel := with_progress g ?k\<rparr>"
  let ?tr = "transform_row ?k L (transformer_calls s) y"
  have run: "y < lDstYSize L \<and> eErr s = CE_None" using "1.prems" by simp
  obtain u2 where b2: "row_body P L ?s2 y = Inr u2"
    and l2: "row_loop P L u2 (y + 1) = Inr t2"
    using "1.prems"(1) run
    by (subst (asm) row_loop.simps) (auto simp: bind_fault_def split: sum.splits)
  have p2: "pixel_loop P L ?tr y (with_progress g ?k) 0 = Inr (kernel u2)"
    and u2: "u2 = (after_idle_row L ?s2 y)\<lparr>kernel := kernel u2\<rparr>"
    using row_body_result [OF b2] by simp_all
  obtain k1 where p1: "pixel_loop P L ?tr y ?k 0 = Inr k1" and ku2: "kernel u2 = with_progress g k1"
    using p2 by (cases "pixel_loop P L ?tr y ?k 0") (auto simp: pixel_loop_with_progress)
  define u where "u = (after_idle_row L s y)\<lparr>kernel := k1\<rparr>"
  have b1: "row_body P L s y = Inr u"
    unfolding u_def using p1 by (rule row_body_intro)
  note fl = only_dst_fields [OF pixel_loop_frame [OF p1]]
  have step: "row_loop P L s y = row_loop P L u (y + 1)"
    using run by (subst row_loop.simps) (simp add: b1 bind_fault_def)
  have dropk1: "map (drop n) (papabyDstImage k1) = map (drop n) (papabyDstImage ?k)"
  proof (rule pixel_loop_blind [OF p1])
    fix x j b v
    assume "0 \<le> x" "x < lDstXSize L"
      "j \<in> pixel_slots (eWorkingDataType ?k) (x + y * lDstXSize L)"
    then show "drop n (b[j := v]) = drop n b"
      unfolding "1.prems"(10)
      using "1.prems"(3,4) by (intro drop_blind_to_earlier_lines) auto
  qed
  have u_fields: "kernel u = k1" "live_arrays u = live_arrays s"
    "progress_log u = progress_log s @ [progress_fraction ?k L y]"
    by (simp_all add: u_def after_idle_row_def)
  show ?case
  proof (cases "y = R")
    case True
    have "eErr u = CE_Failure"
      using "1.prems"(7,9) True by (simp add: u_def after_idle_row_def)
    then have "row_loop P L u (y + 1) = Inr u" by (subst row_loop.simps) simp
    then have r: "row_loop P L s y = Inr u" using step by simp
    have "map (take n) (papabyDstImage (kernel t2)) = map (take n) (papabyDstImage (kernel u2))"
    proof (rule row_loop_blind [OF l2])
      fix x y' j b v
      assume "y + 1 \<le> y'" "0 \<le> x" "x < lDstXSize L"
        "j \<in> pixel_slots (eWorkingDataType (kernel u2)) (x + y' * lDstXSize L)"
      then show "take n (b[j := v]) = take n b"
        unfolding "1.prems"(10)
        using "1.prems"(3,4) True fl by (intro take_blind_to_later_lines) (auto simp: ku2)
    qed
    then have "map (take n) (papabyDstImage (kernel u)) = map (take n) (papabyDstImage (kernel t2))"
      by (simp add: ku2 u_fields)
    then show ?thesis
      using r \<open>eErr u = CE_Failure\<close> dropk1 u_fields by auto
  next
    case False
    then have yR: "y < R" using "1.prems"(4) by simp
    have cont: "pfnProgress ?k (nat y + 1) (progress_fraction ?k L y)"
      using "1.prems"(8) yR by simp
    have eu: "eErr u = CE_None"
      using cont "1.prems"(6,7) by (simp add: u_def after_idle_row_def)
    have u2': "u2 = u\<lparr>kernel := with_progress g (kernel u)\<rparr>"
      using "1.prems"(2,6) cont "1.prems"(7)
      by (subst u2) (simp add: u_def after_idle_row_def ku2)
    have l2': "row_loop P L (u\<lparr>kernel := with_progress g (kernel u)\<rparr>) (y + 1) = Inr t2"
      using l2 u2' by simp
    have len: "length (progress_log u) = nat (y + 1) + 1"
      using "1.prems"(3,7) by (simp add: u_fields nat_add_distrib)
    have pf: "progress_fraction k1 L = progress_fraction ?k L"
      using fl by (simp add: progress_fraction_def fun_eq_iff)
    have cont': "\<forall>r. y + 1 \<le> r \<and> r < R
           \<longrightarrow> pfnProgress (kernel u) (nat r + 1) (progress_fraction (kernel u) L r)"
      using "1.prems"(8) fl(1) by (simp add: pf u_fields)
    have stop': "\<not> pfnProgress (kernel u) (nat R + 1) (progress_fraction (kernel u) L R)"
      using "1.prems"(9) fl(1) by (simp add: pf u_fields)
    have n': "n = nat (slots_per_pixel (eWorkingDataType (kernel u)) * ((R + 1) * lDstXSize L))"
      using "1.prems"(10) fl by (simp add: u_fields)
    obtain t where t: "row_loop P L u (y + 1) = Inr t" "eErr t = CE_Failure"
        "live_arrays t = live_arrays u"
        "map (take n) (papabyDstImage (kernel t)) = map (take n) (papabyDstImage (kernel t2))"
        "map (drop n) (papabyDstImage (kernel t)) = map (drop n) (papabyDstImage (kernel u))"
      using "1.IH" [OF run b1 l2' "1.prems"(2) _ _ "1.prems"(5) eu len cont' stop' n']
        "1.prems"(3) yR by auto
    show ?thesis
      using t step dropk1 u_fields by auto
  qed
qed

text \<open>
  C9. Let the progress callback continue on the call before the loop and after the lines
  0 to \<open>R - 1\<close>, and cancel after line \<open>R\<close>. Then \<^verbatim>\<open>PerformWarp\<close> returns
  \<^verbatim>\<open>CE_Failure\<close> with its four scanline arrays released. Compared with a run of the
  same kernel under a progress callback \<open>g\<close> that never cancels, every band buffer
  agrees on the slots of lines 0 to \<open>R\<close> (the first \<open>n\<close> slots); and on the slots of
  the lines after \<open>R\<close> it still holds what it held before the warp.
\<close>

theorem cancellation_keeps_completed_lines:
  fixes R :: int
  assumes "0 \<le> R" and "R < nDstYSize poWK"
    and "pfnProgress poWK 0
           (progress_fraction poWK (gwk_locals_of poWK) (iDstY_indeterminate P))"
    and "\<forall>r. 0 \<le> r \<and> r < R
           \<longrightarrow> pfnProgress poWK (nat r + 1) (progress_fraction poWK (gwk_locals_of poWK) r)"
    and "\<not> pfnProgress poWK (nat R + 1) (progress_fraction poWK (gwk_locals_of poWK) R)"
    and "\<forall>k f. g k f"
    and "PerformWarp P (poWK\<lparr>pfnProgress := g\<rparr>) = Inr st_full"
    and "n = nat (slots_per_pixel (eWorkingDataType poWK) * ((R + 1) * nDstXSize poWK))"
  shows "\<exists>st. PerformWarp P poWK = Inr st \<and> eErr st = CE_Failure \<and> live_arrays st = 0
           \<and> map (take n) (papabyDstImage (kernel st))
               = map (take n) (papabyDstImage (kernel st_full))
           \<and> map (drop n) (papabyDstImage (kernel st)) = map (drop n) (papabyDstImage poWK)"
proof -
  let ?L = "gwk_locals_of poWK"
  let ?f = "progress_fraction poWK ?L (iDstY_indeterminate P)"
  let ?s0 = "\<lparr>kernel = poWK, eErr = CE_None, progress_log = [?f],
              transformer_calls = 0, live_arrays = 4\<rparr>"
  have wp: "poWK\<lparr>pfnProgress := g\<rparr> = with_progress g poWK" by (simp add: with_progress_def)
  obtain t2 where l2: "row_loop P ?L (?s0\<lparr>kernel := with_progress g (kernel ?s0)\<rparr>) 0 = Inr t2"
    and full: "st_full = t2\<lparr>live_arrays := live_arrays t2 - 4\<rparr>"
    using assms(6,7) unfolding wp
    by (auto simp: PerformWarp_def Validate_def GWKGeneralCase_def Let_def bind_fault_def
             split: sum.splits)
  have L: "lDstYSize ?L = nDstYSize poWK" "lDstXSize ?L = nDstXSize poWK"
    by (simp_all add: gwk_locals_of_def)
  obtain t where t: "row_loop P ?L ?s0 0 = Inr t" "eErr t = CE_Failure"
      "live_arrays t = live_arrays ?s0"
      "map (take n) (papabyDstImage (kernel t)) = map (take n) (papabyDstImage (kernel t2))"
      "map (drop n) (papabyDstImage (kernel t)) = map (drop n) (papabyDstImage (kernel ?s0))"
    using cancelled_row_loop [OF l2 assms(6) _ assms(1), of n] assms(2,4,5,8) L
    by auto
  have "PerformWarp P poWK = Inr (t\<lparr>live_arrays := live_arrays t - 4\<rparr>)"
    using assms(3) t(1)
    by (simp add: PerformWarp_def Validate_def GWKGeneralCase_def Let_def bind_fault_def)
  then show ?thesis using t full by simp
qed

theorem cancellation_keeps_completed_lines_witness:
  "(0::int) \<le> 3 \<and> 3 < nDstYSize s6_kernel
   \<and> pfnProgress s6_kernel 0
        (progress_fraction s6_kernel (gwk_locals_of s6_kernel)
           (iDstY_indeterminate example_platform))
   \<and> pfnProgress s6_kernel 1 (progress_fraction s6_kernel (gwk_locals_of s6_kernel) 0)
   \<and> pfnProgress s6_kernel 2 (progress_fraction s6_kernel (gwk_locals_of s6_kernel) 1)
   \<and> pfnProgress s6_kernel 3 (progress_fraction s6_kernel (gwk_locals_of s6_kernel) 2)
   \<and> \<not> pfnProgress s6_kernel (nat 3 + 1) (progress_fraction s6_kernel (gwk_locals_of s6_kernel) 3)
   \<and> (\<exists>st_full st.
         PerformWarp example_platform (s6_kernel\<lparr>pfnProgress := (\<lambda>k f. True)\<rparr>) = Inr st_full
         \<and> papabyDstImage (kernel st_full)
             = [[1, 2, 3, 4, 5, 6, 7, 8, 9, 10, 11, 12, 13, 14, 15, 16]]
         \<and> PerformWarp example_platform s6_kernel = Inr st \<and> eErr st = CE_Failure
         \<and> live_arrays st = 0
         \<and> map (take 8) (papabyDstImage (kernel st)) = map (take 8) (papabyDstImage (kernel st_full))
         \<and> map (drop 8) (papabyDstImage (kernel st)) = map (drop 8) (papabyDstImage s6_kernel))"
proof -
  let ?g = "\<lambda>(k::nat) (f::real). True"
  have h1: "(0::int) \<le> 3" by simp
  have h2: "3 < nDstYSize s6_kernel" by (simp add: s6_kernel_def)
  have h3: "pfnProgress s6_kernel 0
        (progress_fraction s6_kernel (gwk_locals_of s6_kernel)
           (iDstY_indeterminate example_platform))"
    by (simp add: s6_kernel_def)
  have h4: "\<forall>r. 0 \<le> r \<and> r < 3 \<longrightarrow>
      pfnProgress s6_kernel (nat r + 1) (progress_fraction s6_kernel (gwk_locals_of s6_kernel) r)"
    by (auto simp: s6_kernel_def)
  have h5: "\<not> pfnProgress s6_kernel (nat 3 + 1)
               (progress_fraction s6_kernel (gwk_locals_of s6_kernel) 3)"
    by (simp add: s6_kernel_def)
  have h4': "pfnProgress s6_kernel 1 (progress_fraction s6_kernel (gwk_locals_of s6_kernel) 0)"
    "pfnProgress s6_kernel 2 (progress_fraction s6_kernel (gwk_locals_of s6_kernel) 1)"
    "pfnProgress s6_kernel 3 (progress_fraction s6_kernel (gwk_locals_of s6_kernel) 2)"
    by (simp_all add: s6_kernel_def)
  have h6: "\<forall>k f. ?g k f" by simp
  have "\<exists>st_full. PerformWarp example_platform (s6_kernel\<lparr>pfnProgress := ?g\<rparr>) = Inr st_full
          \<and> papabyDstImage (kernel st_full)
             = [[1, 2, 3, 4, 5, 6, 7, 8, 9, 10, 11, 12, 13, 14, 15, 16]]"
    by (simp add: warp_unfold s6_kernel_def s1_kernel_def identity_transformer_def)
  then obtain st_full where
    h7: "PerformWarp example_platform (s6_kernel\<lparr>pfnProgress := ?g\<rparr>) = Inr st_full"
    and img: "papabyDstImage (kernel st_full)
             = [[1, 2, 3, 4, 5, 6, 7, 8, 9, 10, 11, 12, 13, 14, 15, 16]]"
    by blast
  have h8: "(8::nat) = nat (slots_per_pixel (eWorkingDataType s6_kernel)
                             * ((3 + 1) * nDstXSize s6_kernel))"
    by (simp add: s6_kernel_def s1_kernel_def slots_per_pixel_def is_complex_def)
  show ?thesis
    using cancellation_keeps_completed_lines [OF h1 h2 h3 h4 h5 h6 h7 h8] h1 h2 h3 h4' h5 h7 img
    by blast
qed

subsection \<open>Source accesses\<close>

text \<open>
  What does hold: when the coordinates the transformer returns are below \<open>2 ^ 31\<close>,
  a point that passes the driver's tests lies in the source window
  (\<open>src_offset_in_window\<close>), and on a kernel whose buffers have the sizes of the data
  model the warp makes no access outside a buffer (\<open>PerformWarp_defined\<close>), on any
  platform.
\<close>

lemma c_trunc_ge: "of_int n \<le> x \<Longrightarrow> n \<le> c_trunc x"
  by (auto simp: c_trunc_def le_floor_iff le_ceiling_iff intro: order_trans)

lemma c_trunc_less: "x < of_int n \<Longrightarrow> 0 < n \<Longrightarrow> c_trunc x < n"
proof (cases "x < 0")
  case True
  assume "0 < n"
  have c: "\<lceil>x\<rceil> \<le> 0" using True by (simp add: ceiling_le_zero)
  have "c_trunc x = \<lceil>x\<rceil>" using True by (simp add: c_trunc_def)
  then show ?thesis using c \<open>0 < n\<close> by linarith
next
  case False
  assume "x < of_int n"
  then show ?thesis using False by (simp add: c_trunc_def floor_less_iff)
qed

lemma res_win_size_nonneg: "0 \<le> res_win_size poWK"
  by (simp add: res_win_size_def Let_def)

lemma src_offset_in_window:
  assumes "src_offset P poWK L dfX dfY = Some off"
    and "dfX < 2147483648" "dfY < 2147483648"
    and "0 \<le> nSrcXOff poWK" "0 \<le> nSrcYOff poWK" "0 \<le> nResWinSize L"
  shows "\<exists>sx sy. off = sx + sy * lSrcXSize L \<and> 0 \<le> sx \<and> sx < lSrcXSize L
                 \<and> 0 \<le> sy \<and> sy < lSrcYSize L"
proof -
  have lo: "of_int (nSrcXOff poWK + nResWinSize L) \<le> dfX"
    "of_int (nSrcYOff poWK + nResWinSize L) \<le> dfY"
    using assms(1) by (auto simp: src_offset_def split: if_splits)
  have tx: "nSrcXOff poWK + nResWinSize L \<le> c_trunc dfX" "c_trunc dfX < 2147483648"
    using c_trunc_ge [OF lo(1)] c_trunc_less [of dfX 2147483648] assms(2) by auto
  have ty: "nSrcYOff poWK + nResWinSize L \<le> c_trunc dfY" "c_trunc dfY < 2147483648"
    using c_trunc_ge [OF lo(2)] c_trunc_less [of dfY 2147483648] assms(3) by auto
  have ix: "int_of_double P dfX = c_trunc dfX" "int_of_double P dfY = c_trunc dfY"
    using tx ty assms(4-6) by (auto simp: int_of_double_def)
  let ?sx = "c_trunc dfX - nSrcXOff poWK" and ?sy = "c_trunc dfY - nSrcYOff poWK"
  have "off = ?sx + ?sy * lSrcXSize L" "?sx < lSrcXSize L - nResWinSize L"
    "?sy < lSrcYSize L - nResWinSize L"
    using assms(1) lo by (auto simp: src_offset_def ix Let_def split: if_splits)
  then show ?thesis using tx ty assms(6) by (intro exI [of _ ?sx] exI [of _ ?sy]) auto
qed

lemma list_all_takeD:
  "list_all Q (take n xs) \<Longrightarrow> i < n \<Longrightarrow> i < length xs \<Longrightarrow> Q (xs ! i)"
  by (simp add: list_all_length)

lemma mask_word_defined:
  assumes "0 \<le> off" "off < n" "n \<le> 32 * int (length v)"
  shows "\<exists>w. peek rg v (drop_bit 5 off) = Inr w"
proof -
  have "0 \<le> off div 32 \<and> off div 32 < int (length v)" using assms by presburger
  then show ?thesis by (simp add: peek_def drop_bit_eq_div)
qed

lemma get_pixel_switch_defined:
  assumes "0 \<le> off" "off < n" "slots_per_pixel t * n \<le> int (length buf)"
  shows "\<exists>v. get_pixel_switch t buf off = Inr v"
  using assms
  by (cases t) (auto simp: peek_def slots_per_pixel_def is_complex_def)

lemma set_pixel_switch_defined:
  assumes "0 \<le> off" "off < n" "slots_per_pixel t * n \<le> int (length buf)"
  shows "\<exists>r buf'. set_pixel_switch P t buf off re im = Inr (r, buf')"
  using assms
  by (cases t) (auto simp: poke_def slots_per_pixel_def is_complex_def)

lemma unified_src_valid_defined:
  assumes "kernel_buffers_ok k" "0 \<le> off" "off < nSrcXSize k * nSrcYSize k"
  shows "\<exists>v. unified_src_valid k off = Inr v"
proof (cases "panUnifiedSrcValid k")
  case None
  then show ?thesis by (auto simp: unified_src_valid_def)
next
  case (Some v)
  then have "nSrcXSize k * nSrcYSize k \<le> 32 * int (length v)"
    using assms(1) by (simp add: kernel_buffers_ok_def)
  then obtain w where "peek UnifiedSrcValid v (drop_bit 5 off) = Inr w"
    using mask_word_defined [OF assms(2,3)] by blast
  then show ?thesis using Some by (simp add: unified_src_valid_def bind_fault_def)
qed

lemma band_src_valid_defined:
  assumes "kernel_buffers_ok k" "0 \<le> off" "off < nSrcXSize k * nSrcYSize k"
    "0 \<le> iBand" "iBand < nBands k"
  shows "\<exists>v. band_src_valid k iBand off = Inr v"
proof (cases "papanBandSrcValid k")
  case None
  then show ?thesis by (auto simp: band_src_valid_def)
next
  case (Some vs)
  then have len: "nBands k \<le> int (length vs)"
    and all: "list_all (\<lambda>p. case p of None \<Rightarrow> True
                 | Some panValid \<Rightarrow> nSrcXSize k * nSrcYSize k \<le> 32 * int (length panValid))
               (take (nat (nBands k)) vs)"
    using assms(1) by (simp_all add: kernel_buffers_ok_def)
  have i: "nat iBand < nat (nBands k)" "nat iBand < length vs" using assms(4,5) len by auto
  have pk: "peek BandSrcValidArray vs iBand = Inr (vs ! nat iBand)"
    using assms(4,5) len by (simp add: peek_def)
  show ?thesis
  proof (cases "vs ! nat iBand")
    case None
    then show ?thesis using Some pk by (auto simp: band_src_valid_def bind_fault_def)
  next
    case (Some v)
    then have "nSrcXSize k * nSrcYSize k \<le> 32 * int (length v)"
      using list_all_takeD [OF all i] by simp
    then obtain w where "peek BandSrcValid v (drop_bit 5 off) = Inr w"
      using mask_word_defined [OF assms(2,3)] by blast
    then show ?thesis
      using \<open>papanBandSrcValid k = Some vs\<close> Some pk
      by (simp add: band_src_valid_def bind_fault_def)
  qed
qed

lemma src_density_defined:
  assumes "kernel_buffers_ok k" "0 \<le> off" "off < nSrcXSize k * nSrcYSize k"
  shows "\<exists>d. src_density k off = Inr d"
  using assms
  by (cases "pafUnifiedSrcDensity k") (auto simp: src_density_def kernel_buffers_ok_def peek_def)

lemma GWKGetPixelValue_defined:
  assumes "kernel_buffers_ok k" "0 \<le> off" "off < nSrcXSize k * nSrcYSize k"
    "0 \<le> iBand" "iBand < nBands k"
  shows "\<exists>r. GWKGetPixelValue k iBand off out = Inr r"
proof -
  have len: "nBands k \<le> int (length (papabySrcImage k))"
    and all: "list_all
         (\<lambda>buf. slots_per_pixel (eWorkingDataType k) * (nSrcXSize k * nSrcYSize k)
                  \<le> int (length buf))
         (take (nat (nBands k)) (papabySrcImage k))"
    using assms(1) by (simp_all add: kernel_buffers_ok_def)
  have i: "nat iBand < nat (nBands k)" "nat iBand < length (papabySrcImage k)"
    using assms(4,5) len by auto
  have pk: "peek SrcBandArray (papabySrcImage k) iBand = Inr (papabySrcImage k ! nat iBand)"
    using assms(4,5) len by (simp add: peek_def)
  obtain u where u: "unified_src_valid k off = Inr u"
    using unified_src_valid_defined [OF assms(1-3)] by blast
  obtain b where b: "band_src_valid k iBand off = Inr b"
    using band_src_valid_defined [OF assms] by blast
  obtain v where v: "get_pixel_switch (eWorkingDataType k) (papabySrcImage k ! nat iBand) off = Inr v"
    using get_pixel_switch_defined [OF assms(2,3)] list_all_takeD [OF all i] by blast
  obtain d where d: "src_density k off = Inr d"
    using src_density_defined [OF assms(1-3)] by blast
  show ?thesis
    by (auto simp: GWKGetPixelValue_def bind_fault_def pk u b v d split: option.splits prod.splits)
qed

lemma GWKSetPixelValue_defined:
  assumes "kernel_buffers_ok k" "0 \<le> off" "off < nDstXSize k * nDstYSize k"
    "0 \<le> iBand" "iBand < nBands k"
  shows "\<exists>r. GWKSetPixelValue P k iBand off d re im = Inr r"
proof -
  have len: "nBands k \<le> int (length (papabyDstImage k))"
    and all: "list_all
         (\<lambda>buf. slots_per_pixel (eWorkingDataType k) * (nDstXSize k * nDstYSize k)
                  \<le> int (length buf))
         (take (nat (nBands k)) (papabyDstImage k))"
    using assms(1) by (simp_all add: kernel_buffers_ok_def)
  have i: "nat iBand < nat (nBands k)" "nat iBand < length (papabyDstImage k)"
    using assms(4,5) len by auto
  have pk: "peek DstBandArray (papabyDstImage k) iBand = Inr (papabyDstImage k ! nat iBand)"
    using assms(4,5) len by (simp add: peek_def)
  obtain r buf' where "set_pixel_switch P (eWorkingDataType k) (papabyDstImage k ! nat iBand)
                         off re im = Inr (r, buf')"
    using set_pixel_switch_defined [OF assms(2,3)] list_all_takeD [OF all i] by blast
  then show ?thesis by (simp add: GWKSetPixelValue_def pk)
qed

lemma kernel_buffers_ok_preserved:
  assumes "kernel_buffers_ok k" "only_dst_image_changed k k'"
    "map length (papabyDstImage k') = map length (papabyDstImage k)"
  shows "kernel_buffers_ok k'"
proof -
  obtain bufs where k': "k' = k\<lparr>papabyDstImage := bufs\<rparr>"
    using assms(2) by (auto simp: only_dst_image_changed_def)
  have ml: "map length bufs = map length (papabyDstImage k)" using assms(3) k' by simp
  then have l: "length bufs = length (papabyDstImage k)" by (metis length_map)
  have "list_all (\<lambda>buf. c \<le> int (length buf)) (take n bufs)
        = list_all (\<lambda>buf. c \<le> int (length buf)) (take n (papabyDstImage k))" for c n
  proof -
    have "list_all (\<lambda>buf. c \<le> int (length buf)) (take n xs)
            = list_all (\<lambda>m. c \<le> int m) (take n (map length xs))" for xs :: "buffer list"
      by (simp add: list_all_iff take_map)
    then show ?thesis using ml by simp
  qed
  note eq = this
  show ?thesis
    using assms(1) l unfolding kernel_buffers_ok_def k' dst_valid_plane_ok_def
    by (simp add: eq cong: option.case_cong)
qed

lemma only_dst_sizes:
  assumes "only_dst_image_changed k k'"
  shows "nSrcXSize k' = nSrcXSize k" "nSrcYSize k' = nSrcYSize k"
    "nDstXSize k' = nDstXSize k" "nDstYSize k' = nDstYSize k"
    "nSrcXOff k' = nSrcXOff k" "nSrcYOff k' = nSrcYOff k"
    "gwk_locals_of k' = gwk_locals_of k"
    "transformer_in_int_range k' = transformer_in_int_range k"
  using assms unfolding only_dst_image_changed_def
  by (auto simp: gwk_locals_of_def res_win_size_def transformer_in_int_range_def)

lemma band_body_defined:
  assumes "kernel_buffers_ok k" "0 \<le> iBand" "iBand < nBands k"
    "0 \<le> so" "so < nSrcXSize k * nSrcYSize k" "0 \<le> off" "off < nDstXSize k * nDstYSize k"
  shows "\<exists>k'. band_body P k so off iBand = Inr k' \<and> kernel_buffers_ok k'"
proof -
  obtain r where g: "GWKGetPixelValue k iBand so (0, 0, 0) = Inr r"
    using GWKGetPixelValue_defined [OF assms(1,4,5,2,3)] by blast
  obtain r' where s: "GWKSetPixelValue P k iBand off (fst (snd r)) (fst (snd (snd r)))
                        (snd (snd (snd r))) = Inr r'"
    using GWKSetPixelValue_defined [OF assms(1,6,7,2,3)] by blast
  have "\<exists>k'. band_body P k so off iBand = Inr k'"
    using g s by (auto simp: band_body_def bind_fault_def split: prod.splits)
  then obtain k' where k': "band_body P k so off iBand = Inr k'" by blast
  have "only_dst_image_changed k k'"
    using band_body_frame [OF k'] by (simp add: only_dst_image_changed_def)
  moreover have "map length (papabyDstImage k') = map length (papabyDstImage k)"
    using k' by (rule band_body_blind) simp
  ultimately show ?thesis using k' kernel_buffers_ok_preserved [OF assms(1)] by blast
qed

lemma band_loop_defined:
  assumes "kernel_buffers_ok k" "0 \<le> iBand"
    "0 \<le> so" "so < nSrcXSize k * nSrcYSize k" "0 \<le> off" "off < nDstXSize k * nDstYSize k"
  shows "\<exists>k'. band_loop P k so off iBand = Inr k' \<and> kernel_buffers_ok k'"
  using assms
proof (induction P k so off iBand rule: band_loop.induct)
  case (1 P k so off iBand)
  show ?case
  proof (cases "iBand < nBands k")
    case True
    obtain k1 where b: "band_body P k so off iBand = Inr k1" and ok1: "kernel_buffers_ok k1"
      using band_body_defined [OF "1.prems"(1,2) True "1.prems"(3-6)] by blast
    have f: "only_dst_image_changed k k1"
      using band_body_frame [OF b] by (simp add: only_dst_image_changed_def)
    have "\<exists>k'. band_loop P k1 so off (iBand + 1) = Inr k' \<and> kernel_buffers_ok k'"
      using "1.IH" [OF True b ok1] "1.prems" only_dst_sizes [OF f] by simp
    moreover have "band_loop P k so off iBand = band_loop P k1 so off (iBand + 1)"
      by (subst band_loop.simps) (simp add: True b bind_fault_def)
    ultimately show ?thesis by simp
  next
    case False
    then have "band_loop P k so off iBand = Inr k" by (subst band_loop.simps) simp
    then show ?thesis using "1.prems"(1) by simp
  qed
qed

lemma pixel_body_defined:
  assumes "kernel_buffers_ok k" "gwk_locals_of k = L"
    "outX tr (nat iDstX) < 2147483648" "outY tr (nat iDstX) < 2147483648"
    "0 \<le> iDstX" "iDstX < nDstXSize k" "0 \<le> iDstY" "iDstY < nDstYSize k"
  shows "\<exists>k'. pixel_body P L tr iDstY k iDstX = Inr k' \<and> kernel_buffers_ok k'"
proof (cases "panSuccess tr (nat iDstX) = 0")
  case True
  then show ?thesis using assms(1) by (simp add: pixel_body_def)
next
  case nz: False
  have L: "lDstXSize L = nDstXSize k" "lSrcXSize L = nSrcXSize k" "lSrcYSize L = nSrcYSize k"
    "0 \<le> nResWinSize L"
    using assms(2) res_win_size_nonneg [of k] by (auto simp: gwk_locals_of_def)
  show ?thesis
  proof (cases "src_offset P k L (outX tr (nat iDstX)) (outY tr (nat iDstX))")
    case None
    then show ?thesis using assms(1) nz by (simp add: pixel_body_def)
  next
    case (Some so)
    have off0: "0 \<le> nSrcXOff k" "0 \<le> nSrcYOff k"
      using assms(1) by (simp_all add: kernel_buffers_ok_def)
    obtain sx sy where so: "so = sx + sy * nSrcXSize k" "0 \<le> sx" "sx < nSrcXSize k"
        "0 \<le> sy" "sy < nSrcYSize k"
      using src_offset_in_window [OF Some assms(3,4) off0 L(4)] L by auto
    have sob: "0 \<le> so \<and> so < nSrcXSize k * nSrcYSize k"
      unfolding so(1) using so(2-5) by (intro dst_offset_bounds) auto
    have dob: "0 \<le> iDstX + iDstY * nDstXSize k
               \<and> iDstX + iDstY * nDstXSize k < nDstXSize k * nDstYSize k"
      using assms(5-8) by (intro dst_offset_bounds) auto
    have "dst_valid_plane_ok k" using assms(1) by (simp add: kernel_buffers_ok_def)
    then obtain bSet where dv: "dst_already_valid k (iDstX + iDstY * nDstXSize k) = Inr bSet"
      using dst_already_valid_defined dob by blast
    obtain k' where "band_loop P k so (iDstX + iDstY * nDstXSize k) 0 = Inr k'"
        "kernel_buffers_ok k'"
      using band_loop_defined [OF assms(1), of 0 so "iDstX + iDstY * nDstXSize k" P] sob dob
      by auto
    then show ?thesis
      using nz Some dv assms(1) L by (simp add: pixel_body_def bind_fault_def Let_def)
  qed
qed

lemma pixel_loop_defined:
  assumes "kernel_buffers_ok k" "gwk_locals_of k = L"
    "\<And>i. outX tr i < 2147483648 \<and> outY tr i < 2147483648"
    "0 \<le> iDstX" "0 \<le> iDstY" "iDstY < nDstYSize k"
  shows "\<exists>k'. pixel_loop P L tr iDstY k iDstX = Inr k' \<and> kernel_buffers_ok k'"
  using assms
proof (induction P L tr iDstY k iDstX rule: pixel_loop.induct)
  case (1 P L tr iDstY k iDstX)
  show ?case
  proof (cases "iDstX < lDstXSize L")
    case True
    then have x: "iDstX < nDstXSize k" using "1.prems"(2) by (auto simp: gwk_locals_of_def)
    obtain k1 where b: "pixel_body P L tr iDstY k iDstX = Inr k1" and ok1: "kernel_buffers_ok k1"
      using pixel_body_defined [OF "1.prems"(1,2) _ _ "1.prems"(4) x "1.prems"(5,6)]
        "1.prems"(3) by blast
    note sz = only_dst_sizes [OF pixel_body_frame [OF b]]
    have "\<exists>k'. pixel_loop P L tr iDstY k1 (iDstX + 1) = Inr k' \<and> kernel_buffers_ok k'"
      using "1.IH" [OF True b ok1] "1.prems" sz by simp
    moreover have "pixel_loop P L tr iDstY k iDstX = pixel_loop P L tr iDstY k1 (iDstX + 1)"
      by (subst pixel_loop.simps) (simp add: True b bind_fault_def)
    ultimately show ?thesis by simp
  next
    case False
    then have "pixel_loop P L tr iDstY k iDstX = Inr k" by (subst pixel_loop.simps) simp
    then show ?thesis using "1.prems"(1) by simp
  qed
qed

lemma row_body_defined:
  assumes "kernel_buffers_ok (kernel st)" "gwk_locals_of (kernel st) = L"
    "transformer_in_int_range (kernel st)" "0 \<le> iDstY" "iDstY < nDstYSize (kernel st)"
  shows "\<exists>st'. row_body P L st iDstY = Inr st' \<and> kernel_buffers_ok (kernel st')"
proof -
  let ?tr = "transform_row (kernel st) L (transformer_calls st) iDstY"
  have "\<And>i. outX ?tr i < 2147483648 \<and> outY ?tr i < 2147483648"
    using assms(3) by (simp add: transformer_in_int_range_def transform_row_def Let_def)
  then obtain k1 where p: "pixel_loop P L ?tr iDstY (kernel st) 0 = Inr k1"
      and ok: "kernel_buffers_ok k1"
    using pixel_loop_defined [OF assms(1,2) _ _ assms(4,5), of ?tr 0 P] by auto
  show ?thesis using row_body_intro [OF p] ok by simp
qed

lemma row_loop_defined:
  assumes "kernel_buffers_ok (kernel st)" "gwk_locals_of (kernel st) = L"
    "transformer_in_int_range (kernel st)" "0 \<le> iDstY"
  shows "\<exists>st'. row_loop P L st iDstY = Inr st'"
  using assms
proof (induction P L st iDstY rule: row_loop.induct)
  case (1 P L st iDstY)
  show ?case
  proof (cases "iDstY < lDstYSize L \<and> eErr st = CE_None")
    case True
    then have y: "iDstY < nDstYSize (kernel st)"
      using "1.prems"(2) by (auto simp: gwk_locals_of_def)
    obtain st1 where b: "row_body P L st iDstY = Inr st1" and ok1: "kernel_buffers_ok (kernel st1)"
      using row_body_defined [OF "1.prems"(1-4) y] by blast
    have f: "only_dst_image_changed (kernel st) (kernel st1)"
      using row_body_result [OF b] by simp
    note sz = only_dst_sizes [OF f]
    have "\<exists>st'. row_loop P L st1 (iDstY + 1) = Inr st'"
      using "1.IH" [OF True b ok1] "1.prems" sz by simp
    moreover have "row_loop P L st iDstY = row_loop P L st1 (iDstY + 1)"
      by (subst row_loop.simps) (simp add: True b bind_fault_def)
    ultimately show ?thesis by simp
  next
    case False
    then have "row_loop P L st iDstY = Inr st" by (subst row_loop.simps) auto
    then show ?thesis by simp
  qed
qed

lemma PerformWarp_defined:
  assumes "kernel_buffers_ok poWK" "transformer_in_int_range poWK"
  shows "\<exists>st. PerformWarp P poWK = Inr st"
proof -
  let ?L = "gwk_locals_of poWK"
  let ?f = "progress_fraction poWK ?L (iDstY_indeterminate P)"
  let ?st0 = "\<lparr>kernel = poWK, eErr = CE_None, progress_log = [?f],
               transformer_calls = 0, live_arrays = 4\<rparr>"
  obtain st' where "row_loop P ?L ?st0 0 = Inr st'"
    using row_loop_defined [of ?st0 ?L 0 P] assms by auto
  then show ?thesis
    by (auto simp: PerformWarp_def Validate_def GWKGeneralCase_def Let_def bind_fault_def)
qed

text \<open>
  C10. The claim confines every source access to the window for arbitrary transformer
  outputs. The driver tests the lower bound on the \<^verbatim>\<open>double\<close>, before the cast, and
  the upper bound on the \<^verbatim>\<open>int\<close>, after it. A coordinate of 3000000000 passes the
  first test, its conversion to \<^verbatim>\<open>int\<close> is out of range, and with the value x86-64
  produces there (\<open>- 2147483648\<close>) the second test passes as well: the point is not
  rejected, the offset handed to \<^verbatim>\<open>GWKGetPixelValue\<close> is \<open>- 2147483648\<close>, and the
  read of the source band falls outside the buffer.
\<close>

theorem far_coordinate_reads_outside_source:
  "src_offset example_platform far_kernel (gwk_locals_of far_kernel) 3000000000 (1 / 2)
     = Some (- 2147483648)
   \<and> GWKGetPixelValue far_kernel 0 (- 2147483648) (0, 0, 0)
       = Inl (OutOfBounds SrcImage (- 2147483648))
   \<and> PerformWarp example_platform far_kernel = Inl (OutOfBounds SrcImage (- 2147483648))"
  by (simp add: warp_unfold far_kernel_def s1_kernel_def far_transformer_def
        example_platform_def)

end
